theory Spec2Isabelle
  imports Complex_Main "HOL-Library.AList"
begin

section \<open>Values exchanged with the plugin\<close>

text \<open>
  A value of TypeScript type \<open>unknown\<close> that came out of \<open>JSON.parse\<close>.
  \<open>Record<string, unknown>\<close> is an association list of such values.
\<close>

datatype json =
    JNull
  | JBool bool
  | JNum real
  | JStr string
  | JArr "json list"
  | JObj "(string \<times> json) list"

type_synonym jrecord = "(string \<times> json) list"

text \<open>JavaScript truthiness, as used by \<open>||\<close> and \<open>&&\<close>.\<close>

fun truthy :: "json \<Rightarrow> bool" where
  "truthy JNull = False"
| "truthy (JBool b) = b"
| "truthy (JNum n) = (n \<noteq> 0)"
| "truthy (JStr s) = (s \<noteq> [])"
| "truthy (JArr xs) = True"
| "truthy (JObj kvs) = True"

text \<open>A thrown or rejected value: \<open>new Error(message)\<close>.\<close>

datatype js_error = Error string

fun error_message :: "js_error \<Rightarrow> string" where
  "error_message (Error m) = m"

text \<open>\<open>ErrorInfo\<close> and the message envelope of \<open>types/messages.ts\<close>. The three
  envelope shapes are one record whose optional fields are absent (\<open>None\<close>) where
  the shape does not carry them; \<open>msg_type\<close> is a string because the bridge also
  compares it with \<open>"handshake"\<close>.\<close>

record error_info =
  err_code :: string
  err_message :: string
  err_details :: "jrecord option"

record bridge_message =
  msg_id :: string
  msg_type :: string
  msg_timestamp :: nat
  msg_method :: "string option"
  msg_params :: "jrecord option"
  msg_result :: "json option"
  msg_error :: "error_info option"

section \<open>The bridge (\<open>createBridge\<close>)\<close>

type_synonym socket = nat
type_synonym timer = nat
type_synonym promise = nat
type_synonym observer = nat

definition REQUEST_TIMEOUT_MS :: nat where
  "REQUEST_TIMEOUT_MS = 30000"

record plugin_connection =
  ws :: socket
  pluginVersion :: json
  connectedAt :: nat

text \<open>\<open>resolve\<close> and \<open>reject\<close> are the two functions of the promise that
  \<open>sendRequest\<close> created; both are named by that promise's handle.\<close>

record pending_request =
  resolve :: promise
  reject :: promise
  timeout :: timer

text \<open>The callback handed to \<open>setTimeout\<close> in \<open>sendRequest\<close>, with the variables it
  closes over, and the delay it was armed with.\<close>

record timeout_callback =
  delay :: nat
  cb_id :: string
  cb_method :: string
  cb_reject :: promise

text \<open>What is passed to \<open>ws.send\<close> (before \<open>JSON.stringify\<close>).\<close>

datatype frame =
    Welcome string nat
  | RequestFrame bridge_message

text \<open>Calls that leave the bridge, in the order they are made. \<open>WsSend\<close> is a frame
  that the socket took; a send that throws or drops its frame leaves none.\<close>

datatype effect =
    WsSend socket frame
  | WsClose socket nat string
  | ClearTimeout timer
  | Resolve promise bridge_message
  | Reject promise js_error
  | Notify observer bridge_message
  | ServerStop

text \<open>
  The variables of the \<open>createBridge\<close> closure (\<open>connection\<close>, \<open>pendingRequests\<close>,
  \<open>eventHandlers\<close>), and the part of the runtime they act on: the armed timeouts,
  the next timer and promise handles, and whether the server listens.
  \<open>pendingRequests\<close> is a JavaScript \<open>Map\<close>: keys are unique and keep insertion order.
\<close>

record bridge_state =
  connection :: "plugin_connection option"
  pendingRequests :: "(string \<times> pending_request) list"
  eventHandlers :: "observer list"
  timers :: "timer \<rightharpoonup> timeout_callback"
  nextTimer :: timer
  nextPromise :: promise
  serverRunning :: bool

definition createBridge :: bridge_state where
  "createBridge =
     \<lparr>connection = None, pendingRequests = [], eventHandlers = [],
      timers = Map.empty, nextTimer = 0, nextPromise = 0, serverRunning = True\<rparr>"

definition clearTimeout :: "timer \<Rightarrow> bridge_state \<Rightarrow> bridge_state" where
  "clearTimeout t s = s\<lparr>timers := (timers s)(t := None)\<rparr>"

text \<open>The loop \<open>for (const [id, pending] of pendingRequests)\<close> of \<open>websocket.close\<close>
  and \<open>shutdown\<close>, over the entries still to visit.\<close>

fun rejectAll :: "string \<Rightarrow> (string \<times> pending_request) list \<Rightarrow> bridge_state
    \<Rightarrow> bridge_state \<times> effect list" where
  "rejectAll msg [] s = (s, [])"
| "rejectAll msg ((i, pending) # rest) s =
     (let s1 = clearTimeout (timeout pending) s;
          s2 = s1\<lparr>pendingRequests := AList.delete i (pendingRequests s1)\<rparr>;
          (s3, effs) = rejectAll msg rest s2
      in (s3, ClearTimeout (timeout pending) # Reject (reject pending) (Error msg) # effs))"

text \<open>\<open>websocket.close\<close>.\<close>

definition ws_close :: "socket \<Rightarrow> bridge_state \<Rightarrow> bridge_state \<times> effect list" where
  "ws_close w s =
     (case connection s of
        Some c \<Rightarrow>
          if ws c = w
          then rejectAll ''Connection lost'' (pendingRequests s) (s\<lparr>connection := None\<rparr>)
          else (s, [])
      | None \<Rightarrow> (s, []))"

text \<open>
  \<open>websocket.open\<close>; \<open>now\<close> and \<open>now'\<close> are the two readings of \<open>Date.now()\<close>.
  The runtime calls the \<open>close\<close> handler of the prior socket inside
  \<open>connection.ws.close(...)\<close>, while that socket is still the installed one: the handler
  clears the slot and rejects what is pending, and only then is the new connection
  assigned.
\<close>

definition ws_open :: "socket \<Rightarrow> nat \<Rightarrow> nat \<Rightarrow> bridge_state \<Rightarrow> bridge_state \<times> effect list" where
  "ws_open w now now' s =
     (let (s0, closing) =
            (case connection s of
               Some c \<Rightarrow>
                 (let (s', effs) = ws_close (ws c) s
                  in (s', WsClose (ws c) 1000 ''New connection established'' # effs))
             | None \<Rightarrow> (s, []));
          s1 = s0\<lparr>connection := Some \<lparr>ws = w, pluginVersion = JStr ''unknown'', connectedAt = now\<rparr>\<rparr>
      in (s1, closing @ [WsSend w (Welcome ''0.1.0'' now')]))"

definition handleMessage :: "bridge_message \<Rightarrow> socket \<Rightarrow> bridge_state
    \<Rightarrow> bridge_state \<times> effect list" where
  "handleMessage message w s =
     (if msg_type message = ''handshake'' then
        (case connection s of
           Some c \<Rightarrow>
             (case msg_params message of
                Some params \<Rightarrow>
                  if ws c = w
                  then (s\<lparr>connection := Some (c\<lparr>pluginVersion :=
                            (case map_of params ''pluginVersion'' of
                               Some v \<Rightarrow> if truthy v then v else JStr ''unknown''
                             | None \<Rightarrow> JStr ''unknown'')\<rparr>)\<rparr>, [])
                  else (s, [])
              | None \<Rightarrow> (s, []))
         | None \<Rightarrow> (s, []))
      else if msg_type message = ''response'' then
        (case map_of (pendingRequests s) (msg_id message) of
           Some pending \<Rightarrow>
             (let s1 = clearTimeout (timeout pending) s;
                  s2 = s1\<lparr>pendingRequests := AList.delete (msg_id message) (pendingRequests s1)\<rparr>
              in (s2, [ClearTimeout (timeout pending), Resolve (resolve pending) message]))
         | None \<Rightarrow> (s, []))
      else if msg_type message = ''event'' then
        (s, map (\<lambda>h. Notify h message) (eventHandlers s))
      else (s, []))"

text \<open>What the environment answers during one call: \<open>crypto.randomUUID()\<close>,
  \<open>Date.now()\<close>, and \<open>ws.send\<close>. The socket's \<open>send\<close> returns a status number
  or throws: \<open>SendOk\<close> is a status other than 0 (the frame is sent, or queued under
  backpressure), \<open>SendDropped\<close> is the status 0 (the frame is dropped, the socket being
  no longer writable). \<open>sendRequest\<close> does not read the status.\<close>

datatype send_outcome = SendOk | SendDropped | SendThrows js_error

record call_env =
  randomUUID :: string
  dateNow :: nat
  wsSend :: send_outcome

text \<open>\<open>sendRequest\<close>: the executor of the new promise runs at once; the promise's
  handle is returned with the new state.\<close>

definition sendRequest :: "string \<Rightarrow> jrecord \<Rightarrow> call_env \<Rightarrow> bridge_state
    \<Rightarrow> promise \<times> bridge_state \<times> effect list" where
  "sendRequest method params env s =
     (let p = nextPromise s;
          s0 = s\<lparr>nextPromise := Suc p\<rparr>
      in case connection s0 of
           None \<Rightarrow> (p, s0, [Reject p (Error ''Plugin not connected'')])
         | Some c \<Rightarrow>
             (let i = randomUUID env;
                  request = \<lparr>msg_id = i, msg_type = ''request'', msg_timestamp = dateNow env,
                             msg_method = Some method, msg_params = Some params,
                             msg_result = None, msg_error = None\<rparr>;
                  t = nextTimer s0;
                  s1 = s0\<lparr>nextTimer := Suc t,
                          timers := (timers s0)(t \<mapsto>
                            \<lparr>delay = REQUEST_TIMEOUT_MS, cb_id = i, cb_method = method,
                             cb_reject = p\<rparr>)\<rparr>;
                  s2 = s1\<lparr>pendingRequests :=
                            AList.update i \<lparr>resolve = p, reject = p, timeout = t\<rparr>
                              (pendingRequests s1)\<rparr>
              in case wsSend env of
                   SendOk \<Rightarrow> (p, s2, [WsSend (ws c) (RequestFrame request)])
                 | SendDropped \<Rightarrow> (p, s2, [])
                 | SendThrows e \<Rightarrow>
                     (let s3 = clearTimeout t s2;
                          s4 = s3\<lparr>pendingRequests := AList.delete i (pendingRequests s3)\<rparr>
                      in (p, s4, [ClearTimeout t, Reject p e]))))"

text \<open>The runtime fires timer \<open>t\<close>: its callback runs once, if it is still armed.\<close>

definition timeoutFires :: "timer \<Rightarrow> bridge_state \<Rightarrow> bridge_state \<times> effect list" where
  "timeoutFires t s =
     (case timers s t of
        None \<Rightarrow> (s, [])
      | Some cb \<Rightarrow>
          (let s1 = s\<lparr>timers := (timers s)(t := None)\<rparr>;
               s2 = s1\<lparr>pendingRequests := AList.delete (cb_id cb) (pendingRequests s1)\<rparr>
           in (s2, [Reject (cb_reject cb) (Error (''Request timeout: '' @ cb_method cb))])))"

definition isConnected :: "bridge_state \<Rightarrow> bool" where
  "isConnected s = (connection s \<noteq> None)"

text \<open>\<open>shutdown\<close>. The \<open>close\<close> handler that runs inside its \<open>connection.ws.close(...)\<close>
  finds the table already empty and clears the slot, as the next statement does.\<close>

definition shutdown :: "bridge_state \<Rightarrow> bridge_state \<times> effect list" where
  "shutdown s =
     (let (s1, effs) = rejectAll ''Bridge shutting down'' (pendingRequests s) s;
          (s2, closing) = (case connection s1 of
                             Some c \<Rightarrow> (s1\<lparr>connection := None\<rparr>,
                                        [WsClose (ws c) 1000 ''Server shutting down''])
                           | None \<Rightarrow> (s1, []))
      in (s2\<lparr>serverRunning := False\<rparr>, effs @ closing @ [ServerStop]))"

definition onEvent :: "observer \<Rightarrow> bridge_state \<Rightarrow> bridge_state" where
  "onEvent h s = s\<lparr>eventHandlers := eventHandlers s @ [h]\<rparr>"

definition getConnectionInfo :: "bridge_state \<Rightarrow> bool \<times> json option \<times> nat option" where
  "getConnectionInfo s =
     (connection s \<noteq> None, map_option pluginVersion (connection s),
      map_option connectedAt (connection s))"

section \<open>The tool registry and the dispatcher (\<open>tools/index.ts\<close>)\<close>

text \<open>
  A handler is an async function. Its run up to the first \<open>await\<close> either settles its
  promise (returns a value or throws), or leaves it awaiting a bridge promise with the
  rest of its body as a continuation of the response.
\<close>

datatype call_outcome =
    Settled "js_error + json option"
  | Awaiting promise "bridge_message \<Rightarrow> js_error + json option"

type_synonym 'd tool_handler =
  "'d option \<Rightarrow> jrecord \<Rightarrow> call_env \<Rightarrow> bridge_state \<Rightarrow> call_outcome \<times> bridge_state \<times> effect list"

record tool_info =
  tool_name :: string
  tool_description :: string
  inputSchema :: json

record 'd tool_definition =
  tool :: tool_info
  handler :: "'d tool_handler"
  requiresPlugin :: bool

type_synonym 'd registry = "(string \<times> 'd tool_definition) list"

definition isPluginTool :: "'d registry \<Rightarrow> string \<Rightarrow> bool" where
  "isPluginTool tools name =
     (case map_of tools name of Some d \<Rightarrow> requiresPlugin d | None \<Rightarrow> False)"

text \<open>The body of a plugin tool's handler after \<open>await context.bridge.sendRequest\<close>.\<close>

definition pluginToolResume :: "bridge_message \<Rightarrow> js_error + json option" where
  "pluginToolResume response =
     (case msg_error response of
        Some e \<Rightarrow> Inl (Error (err_code e @ '': '' @ err_message e))
      | None \<Rightarrow> Inr (msg_result response))"

definition pluginToolHandler :: "string \<Rightarrow> 'd tool_handler" where
  "pluginToolHandler name docs args env s =
     (let (p, s', effs) = sendRequest name args env s
      in (Awaiting p pluginToolResume, s', effs))"

definition definePluginTool :: "string \<Rightarrow> string \<Rightarrow> json \<Rightarrow> 'd registry \<Rightarrow> 'd registry" where
  "definePluginTool name description schema tools =
     AList.update name
       \<lparr>tool = \<lparr>tool_name = name, tool_description = description, inputSchema = schema\<rparr>,
        handler = pluginToolHandler name, requiresPlugin = True\<rparr> tools"

definition defineLocalTool :: "string \<Rightarrow> string \<Rightarrow> json \<Rightarrow> 'd tool_handler \<Rightarrow> 'd registry
    \<Rightarrow> 'd registry" where
  "defineLocalTool name description schema h tools =
     AList.update name
       \<lparr>tool = \<lparr>tool_name = name, tool_description = description, inputSchema = schema\<rparr>,
        handler = h, requiresPlugin = False\<rparr> tools"

definition handleToolCall :: "'d registry \<Rightarrow> 'd option \<Rightarrow> string \<Rightarrow> jrecord \<Rightarrow> call_env
    \<Rightarrow> bridge_state \<Rightarrow> call_outcome \<times> bridge_state \<times> effect list" where
  "handleToolCall tools docs toolName args env s =
     (case map_of tools toolName of
        None \<Rightarrow> (Settled (Inl (Error (''Unknown tool: '' @ toolName))), s, [])
      | Some toolDef \<Rightarrow>
          if requiresPlugin toolDef \<and> \<not> isConnected s
          then (Settled (Inl (Error (''Tool '' @ [CHR 0x22] @ toolName @ [CHR 0x22]
                   @ '' requires plugin connection. Plugin is not connected.''))), s, [])
          else handler toolDef docs args env s)"




text \<open>The \<open>CallToolRequestSchema\<close> handler of the server entry point. Its reply is the
  object that is serialised into the text payload.\<close>

datatype tool_reply =
    ToolResult "json option"
  | ToolError string string

fun reply_of :: "js_error + json option \<Rightarrow> tool_reply" where
  "reply_of (Inl e) = ToolError ''OPERATION_FAILED'' (error_message e)"
| "reply_of (Inr r) = ToolResult r"

datatype gateway_outcome =
    Replied tool_reply
  | Suspended promise "bridge_message \<Rightarrow> tool_reply"

definition callTool :: "'d registry \<Rightarrow> 'd option \<Rightarrow> string \<Rightarrow> jrecord \<Rightarrow> call_env
    \<Rightarrow> bridge_state \<Rightarrow> gateway_outcome \<times> bridge_state \<times> effect list" where
  "callTool tools docs name args env s =
     (if isPluginTool tools name \<and> \<not> isConnected s
      then (Replied (ToolError ''CONNECTION_LOST''
              ''VFX Forge plugin is not connected. Please ensure the plugin is running in Roblox Studio.''),
            s, [])
      else (case handleToolCall tools docs name args env s of
              (Settled r, s', effs) \<Rightarrow> (Replied (reply_of r), s', effs)
            | (Awaiting p k, s', effs) \<Rightarrow> (Suspended p (\<lambda>m. reply_of (k m)), s', effs)))"

text \<open>How a suspended call ends when the promise it awaits is settled.\<close>

fun resumeCall :: "gateway_outcome \<Rightarrow> effect \<Rightarrow> tool_reply option" where
  "resumeCall (Suspended p k) (Resolve q m) = (if p = q then Some (k m) else None)"
| "resumeCall (Suspended p k) (Reject q e) = (if p = q then Some (reply_of (Inl e)) else None)"
| "resumeCall _ _ = None"

text \<open>The settled promises of a trace, in order.\<close>

fun settled :: "effect list \<Rightarrow> promise list" where
  "settled [] = []"
| "settled (Resolve p m # es) = p # settled es"
| "settled (Reject p e # es) = p # settled es"
| "settled (_ # es) = settled es"

section \<open>Reactions of the bridge, one at a time\<close>

text \<open>The bridge runs on one thread: every state change is one of these reactions.\<close>

datatype reaction =
    Open socket nat nat
  | Message socket bridge_message
  | Close socket
  | TimeoutFires timer
  | SendRequest string jrecord call_env
  | Shutdown
  | OnEvent observer

fun react :: "reaction \<Rightarrow> bridge_state \<Rightarrow> bridge_state \<times> effect list" where
  "react (Open w now now') s = ws_open w now now' s"
| "react (Message w m) s = handleMessage m w s"
| "react (Close w) s = ws_close w s"
| "react (TimeoutFires t) s = timeoutFires t s"
| "react (SendRequest method params env) s = snd (sendRequest method params env s)"
| "react Shutdown s = shutdown s"
| "react (OnEvent h) s = (onEvent h s, [])"

fun run :: "reaction list \<Rightarrow> bridge_state \<Rightarrow> bridge_state \<times> effect list" where
  "run [] s = (s, [])"
| "run (r # rs) s =
     (let (s1, effs1) = react r s; (s2, effs2) = run rs s1 in (s2, effs1 @ effs2))"

section \<open>The documentation cache (\<open>docs/roblox-docs.ts\<close>)\<close>

text \<open>The API dump. A member is one record for the three member shapes; a shape reads
  only its own fields.\<close>

record type_ref =
  tr_Category :: string
  tr_Name :: string

datatype security =
    SecurityString string
  | SecurityObject "string option" "string option"

record api_parameter =
  par_Name :: string
  par_Type :: type_ref
  par_Default :: "string option"

record api_member =
  MemberType :: string
  mem_Name :: string
  mem_Tags :: "string list option"
  mem_Security :: "security option"
  ValueType :: type_ref
  mem_Category :: "string option"
  mem_Default :: "string option"
  Parameters :: "api_parameter list"
  ReturnType :: type_ref

record api_class =
  cls_Name :: string
  Superclass :: string
  cls_Tags :: "string list option"
  Members :: "api_member list"

record api_dump =
  Version :: nat
  Classes :: "api_class list"

text \<open>The API documentation (the fields these lookups read).\<close>

record api_doc_param =
  dpar_name :: string
  documentation :: "string option"

record api_doc_member =
  doc_description :: "string option"
  doc_code_sample :: "string option"
  doc_learn_more_link :: "string option"
  doc_params :: "api_doc_param list option"
  doc_returns :: "string list option"

record api_doc_class =
  dcls_description :: "string option"
  dcls_properties :: "(string \<times> api_doc_member) list option"
  dcls_functions :: "(string \<times> api_doc_member) list option"
  dcls_events :: "(string \<times> api_doc_member) list option"

record api_documentation =
  classes :: "(string \<times> api_doc_class) list"

record docs_cache =
  apiDump :: api_dump
  apiDocs :: "api_documentation option"
  lastUpdated :: nat
  version :: string

text \<open>The results.\<close>

record security_rw =
  sec_read :: string
  sec_write :: string

record property_documentation =
  pd_name :: string
  pd_valueType :: string
  pd_category :: "string option"
  pd_description :: "string option"
  pd_learn_more_link :: "string option"
  pd_code_sample :: "string option"
  pd_tags :: "string list option"
  pd_security :: security_rw
  pd_default :: "string option"

record method_parameter_documentation =
  mpd_name :: string
  mpd_type :: string
  mpd_default :: "string option"
  mpd_description :: "string option"

record method_documentation =
  md_name :: string
  md_description :: "string option"
  md_learn_more_link :: "string option"
  md_code_sample :: "string option"
  md_parameters :: "method_parameter_documentation list"
  md_returns :: "string list option"
  md_returnType :: string
  md_tags :: "string list option"
  md_security :: "string option"

record event_parameter_documentation =
  epd_name :: string
  epd_type :: string
  epd_description :: "string option"

record event_documentation =
  ed_name :: string
  ed_description :: "string option"
  ed_learn_more_link :: "string option"
  ed_code_sample :: "string option"
  ed_parameters :: "event_parameter_documentation list"
  ed_tags :: "string list option"
  ed_security :: "string option"

record class_documentation =
  cd_name :: string
  cd_superclass :: string
  cd_description :: "string option"
  cd_tags :: "string list option"
  cd_properties :: "property_documentation list"
  cd_methods :: "method_documentation list"
  cd_events :: "event_documentation list"

definition getMemberDoc :: "api_doc_class option \<Rightarrow> string \<Rightarrow> string \<Rightarrow> api_doc_member option" where
  "getMemberDoc apiDocClass memberName memberType =
     (case apiDocClass of
        None \<Rightarrow> None
      | Some dc \<Rightarrow>
          if memberType = ''Property'' then Option.bind (dcls_properties dc) (\<lambda>ms. map_of ms memberName)
          else if memberType = ''Function'' then Option.bind (dcls_functions dc) (\<lambda>ms. map_of ms memberName)
          else if memberType = ''Event'' then Option.bind (dcls_events dc) (\<lambda>ms. map_of ms memberName)
          else None)"

text \<open>\<open>x || "None"\<close> on an optional string.\<close>

fun or_None :: "string option \<Rightarrow> string" where
  "or_None None = ''None''"
| "or_None (Some s) = (if s = [] then ''None'' else s)"

fun parsePropertySecurity :: "security option \<Rightarrow> security_rw" where
  "parsePropertySecurity (Some (SecurityObject r w)) = \<lparr>sec_read = or_None r, sec_write = or_None w\<rparr>"
| "parsePropertySecurity (Some (SecurityString s)) = \<lparr>sec_read = or_None (Some s), sec_write = or_None (Some s)\<rparr>"
| "parsePropertySecurity None = \<lparr>sec_read = or_None None, sec_write = or_None None\<rparr>"

text \<open>\<open>typeof x.Security === "string" ? x.Security : undefined\<close>.\<close>

fun stringSecurity :: "security option \<Rightarrow> string option" where
  "stringSecurity (Some (SecurityString s)) = Some s"
| "stringSecurity _ = None"

text \<open>\<open>cache.apiDocs?.classes?.[className]\<close> and \<open>memberDoc?.params?.[idx]?.documentation\<close>.\<close>

definition apiDocClassOf :: "docs_cache \<Rightarrow> string \<Rightarrow> api_doc_class option" where
  "apiDocClassOf cache className = Option.bind (apiDocs cache) (\<lambda>d. map_of (classes d) className)"

definition paramDocumentation :: "api_doc_member option \<Rightarrow> nat \<Rightarrow> string option" where
  "paramDocumentation memberDoc idx =
     Option.bind memberDoc (\<lambda>d. Option.bind (doc_params d)
       (\<lambda>ps. if idx < length ps then documentation (ps ! idx) else None))"

definition propertyDocumentation :: "api_doc_member option \<Rightarrow> api_member \<Rightarrow> property_documentation" where
  "propertyDocumentation memberDoc prop =
     \<lparr>pd_name = mem_Name prop, pd_valueType = tr_Name (ValueType prop),
      pd_category = mem_Category prop,
      pd_description = Option.bind memberDoc doc_description,
      pd_learn_more_link = Option.bind memberDoc doc_learn_more_link,
      pd_code_sample = Option.bind memberDoc doc_code_sample,
      pd_tags = mem_Tags prop, pd_security = parsePropertySecurity (mem_Security prop),
      pd_default = mem_Default prop\<rparr>"

definition methodDocumentation :: "api_doc_member option \<Rightarrow> api_member \<Rightarrow> method_documentation" where
  "methodDocumentation memberDoc func =
     \<lparr>md_name = mem_Name func,
      md_description = Option.bind memberDoc doc_description,
      md_learn_more_link = Option.bind memberDoc doc_learn_more_link,
      md_code_sample = Option.bind memberDoc doc_code_sample,
      md_parameters = map (\<lambda>(idx, p).
          \<lparr>mpd_name = par_Name p, mpd_type = tr_Name (par_Type p),
           mpd_default = par_Default p,
           mpd_description = paramDocumentation memberDoc idx\<rparr>)
        (enumerate 0 (Parameters func)),
      md_returns = Option.bind memberDoc doc_returns,
      md_returnType = tr_Name (ReturnType func),
      md_tags = mem_Tags func, md_security = stringSecurity (mem_Security func)\<rparr>"

definition eventDocumentation :: "api_doc_member option \<Rightarrow> api_member \<Rightarrow> event_documentation" where
  "eventDocumentation memberDoc event =
     \<lparr>ed_name = mem_Name event,
      ed_description = Option.bind memberDoc doc_description,
      ed_learn_more_link = Option.bind memberDoc doc_learn_more_link,
      ed_code_sample = Option.bind memberDoc doc_code_sample,
      ed_parameters = map (\<lambda>(idx, p).
          \<lparr>epd_name = par_Name p, epd_type = tr_Name (par_Type p),
           epd_description = paramDocumentation memberDoc idx\<rparr>)
        (enumerate 0 (Parameters event)),
      ed_tags = mem_Tags event, ed_security = stringSecurity (mem_Security event)\<rparr>"

text \<open>\<open>[...(x.tags || []), "Inherited"]\<close>.\<close>

definition inheritedTags :: "string list option \<Rightarrow> string list option" where
  "inheritedTags tags = Some ((case tags of None \<Rightarrow> [] | Some ts \<Rightarrow> ts) @ [''Inherited''])"

definition findClass :: "docs_cache \<Rightarrow> string \<Rightarrow> api_class option" where
  "findClass cache className = find (\<lambda>c. cls_Name c = className) (Classes (apiDump cache))"

text \<open>\<open>classData.Superclass && classData.Superclass !== "<<<ROOT>>>"\<close>.\<close>

definition hasSuperclass :: "api_class \<Rightarrow> bool" where
  "hasSuperclass classData \<longleftrightarrow> Superclass classData \<noteq> [] \<and> Superclass classData \<noteq> ''<<<ROOT>>>''"

text \<open>The lookups recurse along \<open>Superclass\<close> with no bound: a call that does not return
  has the value \<open>None\<close>; a call that returns \<open>null\<close> has the value \<open>Some None\<close>.\<close>

partial_function (option) getClassDocs ::
    "docs_cache \<Rightarrow> string \<Rightarrow> bool \<Rightarrow> class_documentation option option" where
  "getClassDocs cache className includeInherited =
     (case findClass cache className of
        None \<Rightarrow> Some None
      | Some classData \<Rightarrow>
          (let apiDocClass = apiDocClassOf cache className;
               memberDoc = (\<lambda>member. getMemberDoc apiDocClass (mem_Name member) (MemberType member));
               properties = map (\<lambda>m. propertyDocumentation (memberDoc m) m)
                              (filter (\<lambda>m. MemberType m = ''Property'') (Members classData));
               methods = map (\<lambda>m. methodDocumentation (memberDoc m) m)
                              (filter (\<lambda>m. MemberType m = ''Function'') (Members classData));
               events = map (\<lambda>m. eventDocumentation (memberDoc m) m)
                              (filter (\<lambda>m. MemberType m = ''Event'') (Members classData));
               result = (\<lambda>ps ms es.
                  \<lparr>cd_name = cls_Name classData, cd_superclass = Superclass classData,
                   cd_description = Option.bind apiDocClass dcls_description,
                   cd_tags = cls_Tags classData,
                   cd_properties = ps, cd_methods = ms, cd_events = es\<rparr>)
           in if includeInherited \<and> hasSuperclass classData then
                Option.bind (getClassDocs cache (Superclass classData) True)
                  (\<lambda>parentDocs.
                     case parentDocs of
                       Some parent \<Rightarrow>
                         Some (Some (result
                           (properties @ map (\<lambda>p. p\<lparr>pd_tags := inheritedTags (pd_tags p)\<rparr>)
                                           (cd_properties parent))
                           (methods @ map (\<lambda>m. m\<lparr>md_tags := inheritedTags (md_tags m)\<rparr>)
                                        (cd_methods parent))
                           (events @ map (\<lambda>e. e\<lparr>ed_tags := inheritedTags (ed_tags e)\<rparr>)
                                       (cd_events parent))))
                     | None \<Rightarrow> Some (Some (result properties methods events)))
              else Some (Some (result properties methods events))))"

partial_function (option) getPropertyDocs ::
    "docs_cache \<Rightarrow> string \<Rightarrow> string \<Rightarrow> property_documentation option option" where
  "getPropertyDocs cache className propertyName =
     (case findClass cache className of
        None \<Rightarrow> Some None
      | Some classData \<Rightarrow>
          (case find (\<lambda>m. MemberType m = ''Property'' \<and> mem_Name m = propertyName)
                  (Members classData) of
             None \<Rightarrow>
               if hasSuperclass classData
               then getPropertyDocs cache (Superclass classData) propertyName
               else Some None
           | Some propMember \<Rightarrow>
               Some (Some (propertyDocumentation
                 (getMemberDoc (apiDocClassOf cache className) propertyName ''Property'')
                 propMember))))"

partial_function (option) getMethodDocs ::
    "docs_cache \<Rightarrow> string \<Rightarrow> string \<Rightarrow> method_documentation option option" where
  "getMethodDocs cache className methodName =
     (case findClass cache className of
        None \<Rightarrow> Some None
      | Some classData \<Rightarrow>
          (case find (\<lambda>m. MemberType m = ''Function'' \<and> mem_Name m = methodName)
                  (Members classData) of
             None \<Rightarrow>
               if hasSuperclass classData
               then getMethodDocs cache (Superclass classData) methodName
               else Some None
           | Some funcMember \<Rightarrow>
               Some (Some (methodDocumentation
                 (getMemberDoc (apiDocClassOf cache className) methodName ''Function'')
                 funcMember))))"

partial_function (option) getEventDocs ::
    "docs_cache \<Rightarrow> string \<Rightarrow> string \<Rightarrow> event_documentation option option" where
  "getEventDocs cache className eventName =
     (case findClass cache className of
        None \<Rightarrow> Some None
      | Some classData \<Rightarrow>
          (case find (\<lambda>m. MemberType m = ''Event'' \<and> mem_Name m = eventName)
                  (Members classData) of
             None \<Rightarrow>
               if hasSuperclass classData
               then getEventDocs cache (Superclass classData) eventName
               else Some None
           | Some eventMember \<Rightarrow>
               Some (Some (eventDocumentation
                 (getMemberDoc (apiDocClassOf cache className) eventName ''Event'')
                 eventMember))))"

text \<open>Following \<open>Superclass\<close> from \<open>className\<close> reaches a class without a superclass
  (empty or the root sentinel) or a name that names no class.\<close>

inductive superclass_chain_ends :: "docs_cache \<Rightarrow> string \<Rightarrow> bool" for cache where
  absent: "findClass cache className = None \<Longrightarrow> superclass_chain_ends cache className"
| root: "findClass cache className = Some classData \<Longrightarrow> \<not> hasSuperclass classData
          \<Longrightarrow> superclass_chain_ends cache className"
| link: "findClass cache className = Some classData \<Longrightarrow> hasSuperclass classData
          \<Longrightarrow> superclass_chain_ends cache (Superclass classData)
          \<Longrightarrow> superclass_chain_ends cache className"

code_pred superclass_chain_ends .

section \<open>Example inputs\<close>

definition example_env :: "string \<Rightarrow> call_env" where
  "example_env i = \<lparr>randomUUID = i, dateNow = 20, wsSend = SendOk\<rparr>"

definition dropping_env :: call_env where
  "dropping_env = \<lparr>randomUUID = ''id-c'', dateNow = 50, wsSend = SendDropped\<rparr>"

definition failing_env :: call_env where
  "failing_env = \<lparr>randomUUID = ''id-c'', dateNow = 50, wsSend = SendThrows (Error ''socket closed'')\<rparr>"

text \<open>A bridge with one connection and no request in flight.\<close>

definition connected :: bridge_state where
  "connected = fst (run [Open 1 10 11] createBridge)"

text \<open>A bridge with one connection and two requests in flight.\<close>

definition two_pending :: bridge_state where
  "two_pending =
     fst (run [Open 1 10 11,
               SendRequest ''get_children'' [(''path'', JStr ''Workspace'')] (example_env ''id-a''),
               SendRequest ''get_selection'' [] (example_env ''id-b'')] createBridge)"

definition example_connection :: plugin_connection where
  "example_connection = \<lparr>ws = 1, pluginVersion = JStr ''unknown'', connectedAt = 10\<rparr>"

definition handshake_example :: bridge_message where
  "handshake_example =
     \<lparr>msg_id = ''h1'', msg_type = ''handshake'', msg_timestamp = 30, msg_method = None,
      msg_params = Some [(''pluginVersion'', JStr ''1.4.2'')], msg_result = None,
      msg_error = None\<rparr>"

definition response_example :: "string \<Rightarrow> error_info option \<Rightarrow> bridge_message" where
  "response_example i err =
     \<lparr>msg_id = i, msg_type = ''response'', msg_timestamp = 40, msg_method = None,
      msg_params = None,
      msg_result = (case err of None \<Rightarrow> Some (JObj [(''children'', JArr [])]) | Some e \<Rightarrow> None),
      msg_error = err\<rparr>"


definition example_tools :: "unit registry" where
  "example_tools =
     definePluginTool ''get_children'' ''Get immediate children of an instance.'' (JObj []) []"

definition no_type :: type_ref where
  "no_type = \<lparr>tr_Category = [], tr_Name = []\<rparr>"

definition example_cache :: docs_cache where
  "example_cache =
     \<lparr>apiDump = \<lparr>Version = 1, Classes =
        [\<lparr>cls_Name = ''Instance'', Superclass = ''<<<ROOT>>>'', cls_Tags = None, Members =
            [\<lparr>MemberType = ''Property'', mem_Name = ''Name'', mem_Tags = None,
              mem_Security = Some (SecurityString ''None''),
              ValueType = \<lparr>tr_Category = ''Primitive'', tr_Name = ''string''\<rparr>,
              mem_Category = Some ''Data'', mem_Default = None, Parameters = [],
              ReturnType = no_type\<rparr>]\<rparr>,
         \<lparr>cls_Name = ''BasePart'', Superclass = ''Instance'', cls_Tags = None, Members = []\<rparr>,
         \<lparr>cls_Name = ''Part'', Superclass = ''BasePart'', cls_Tags = None, Members = []\<rparr>]\<rparr>,
      apiDocs = None, lastUpdated = 0, version = ''1''\<rparr>"

text \<open>A malformed dump: two classes that name each other as superclass.\<close>

definition cyclic_cache :: docs_cache where
  "cyclic_cache =
     \<lparr>apiDump = \<lparr>Version = 1, Classes =
        [\<lparr>cls_Name = ''Part'', Superclass = ''BasePart'', cls_Tags = None, Members = []\<rparr>,
         \<lparr>cls_Name = ''BasePart'', Superclass = ''Part'', cls_Tags = None, Members = []\<rparr>]\<rparr>,
      apiDocs = None, lastUpdated = 0, version = ''1''\<rparr>"

section \<open>An invariant of the bridge\<close>

text \<open>
  \<open>S\<close> is the set of promises settled so far. Every entry of the table owns an armed
  timer whose callback names the entry's key and promise; no two armed timers hold the
  same promise; no armed timer holds a settled promise; handles in use are below the
  next handle.
\<close>

definition settle_inv :: "bridge_state \<Rightarrow> promise set \<Rightarrow> bool" where
  "settle_inv s S \<longleftrightarrow>
     distinct (map fst (pendingRequests s))
   \<and> (\<forall>i e. (i, e) \<in> set (pendingRequests s) \<longrightarrow>
         resolve e = reject e
       \<and> (\<exists>cb. timers s (timeout e) = Some cb \<and> cb_id cb = i \<and> cb_reject cb = reject e))
   \<and> (\<forall>t cb. timers s t = Some cb \<longrightarrow>
         t < nextTimer s \<and> cb_reject cb < nextPromise s \<and> cb_reject cb \<notin> S)
   \<and> (\<forall>t t' cb cb'. timers s t = Some cb \<longrightarrow> timers s t' = Some cb'
         \<longrightarrow> cb_reject cb = cb_reject cb' \<longrightarrow> t = t')
   \<and> (\<forall>p \<in> S. p < nextPromise s)"

text \<open>What one reaction must keep: it settles distinct promises, none settled before.\<close>

definition settles_fresh :: "promise set \<Rightarrow> bridge_state \<times> effect list \<Rightarrow> bool" where
  "settles_fresh S r \<longleftrightarrow>
     distinct (settled (snd r)) \<and> set (settled (snd r)) \<inter> S = {}
   \<and> settle_inv (fst r) (S \<union> set (settled (snd r)))"


section \<open>Lemmas about the bridge\<close>

lemma rejectAll_eq:
  "rejectAll msg es s =
     (s\<lparr>timers := timers s |` (- (timeout ` snd ` set es)),
        pendingRequests := filter (\<lambda>(k, _). k \<notin> fst ` set es) (pendingRequests s)\<rparr>,
      concat (map (\<lambda>(i, pending). [ClearTimeout (timeout pending),
                                      Reject (reject pending) (Error msg)]) es))"
proof (induction es arbitrary: s)
  case Nil
  then show ?case by simp
next
  case (Cons e es)
  obtain i pending where e: "e = (i, pending)" by (cases e)
  have t: "(\<lambda>a. if a = timeout pending then None else timers s a) |` (- timeout ` snd ` set es)
        = timers s |` (- insert (timeout pending) (timeout ` snd ` set es))"
    by (auto simp: restrict_map_def fun_eq_iff)
  have f: "filter (\<lambda>(k, _). k \<notin> fst ` set es) (AList.delete i (pendingRequests s))
        = filter (\<lambda>(k, _). k \<noteq> i \<and> k \<notin> fst ` set es) (pendingRequests s)"
    by (auto simp: AList.delete_eq case_prod_unfold intro!: filter_cong)
  show ?case
    unfolding e by (simp add: Cons.IH clearTimeout_def t f fun_upd_def)
qed

lemma filter_own_keys: "filter (\<lambda>(k, _). k \<notin> fst ` set es) es = []"
  by (force simp: filter_empty_conv)


lemma settle_invI:
  assumes "distinct (map fst (pendingRequests s))"
    and "\<And>i e. (i, e) \<in> set (pendingRequests s) \<Longrightarrow> resolve e = reject e"
    and "\<And>i e. (i, e) \<in> set (pendingRequests s) \<Longrightarrow>
           \<exists>cb. timers s (timeout e) = Some cb \<and> cb_id cb = i \<and> cb_reject cb = reject e"
    and "\<And>t cb. timers s t = Some cb \<Longrightarrow> t < nextTimer s"
    and "\<And>t cb. timers s t = Some cb \<Longrightarrow> cb_reject cb < nextPromise s"
    and "\<And>t cb. timers s t = Some cb \<Longrightarrow> cb_reject cb \<notin> S"
    and "\<And>t t' cb cb'. timers s t = Some cb \<Longrightarrow> timers s t' = Some cb'
           \<Longrightarrow> cb_reject cb = cb_reject cb' \<Longrightarrow> t = t'"
    and "\<And>p. p \<in> S \<Longrightarrow> p < nextPromise s"
  shows "settle_inv s S"
  unfolding settle_inv_def using assms by blast

lemma inv_keys: "settle_inv s S \<Longrightarrow> distinct (map fst (pendingRequests s))"
  by (simp add: settle_inv_def)

lemma inv_same: "settle_inv s S \<Longrightarrow> (i, e) \<in> set (pendingRequests s) \<Longrightarrow> resolve e = reject e"
  unfolding settle_inv_def by blast

lemma inv_entry: "settle_inv s S \<Longrightarrow> (i, e) \<in> set (pendingRequests s) \<Longrightarrow>
    \<exists>cb. timers s (timeout e) = Some cb \<and> cb_id cb = i \<and> cb_reject cb = reject e"
  unfolding settle_inv_def by blast

lemma inv_timer: "settle_inv s S \<Longrightarrow> timers s t = Some cb \<Longrightarrow>
    t < nextTimer s \<and> cb_reject cb < nextPromise s \<and> cb_reject cb \<notin> S"
  unfolding settle_inv_def by blast

lemma inv_uniq: "settle_inv s S \<Longrightarrow> timers s t = Some cb \<Longrightarrow> timers s t' = Some cb'
    \<Longrightarrow> cb_reject cb = cb_reject cb' \<Longrightarrow> t = t'"
  unfolding settle_inv_def by blast

lemma inv_settled: "settle_inv s S \<Longrightarrow> p \<in> S \<Longrightarrow> p < nextPromise s"
  unfolding settle_inv_def by blast

text \<open>Disarming the timers \<open>T\<close> and deleting the keys \<open>K\<close> while settling the promises \<open>P\<close>.\<close>

lemma inv_remove:
  assumes inv: "settle_inv s S"
    and tm: "timers s' = timers s |` (- T)"
    and pr: "pendingRequests s' = filter (\<lambda>(k, _). k \<notin> K) (pendingRequests s)"
    and nt: "nextTimer s' = nextTimer s" and np: "nextPromise s' = nextPromise s"
    and P: "\<And>p. p \<in> P \<Longrightarrow> \<exists>t \<in> T. \<exists>cb. timers s t = Some cb \<and> cb_reject cb = p"
    and K: "\<And>i e. (i, e) \<in> set (pendingRequests s) \<Longrightarrow> timeout e \<in> T \<Longrightarrow> i \<in> K"
  shows "settle_inv s' (S \<union> P)"
proof -
  have armed: "timers s t = Some cb \<and> t \<notin> T" if "timers s' t = Some cb" for t cb
    using that tm by (auto simp: restrict_map_def split: if_splits)
  show ?thesis
  proof (rule settle_invI)
    show "distinct (map fst (pendingRequests s'))"
      using inv_keys [OF inv] by (simp add: pr distinct_map_filter)
  next
    fix i e assume "(i, e) \<in> set (pendingRequests s')"
    then have mem: "(i, e) \<in> set (pendingRequests s)" and "i \<notin> K" by (auto simp: pr)
    show "resolve e = reject e" using inv_same [OF inv mem] .
    from inv_entry [OF inv mem] obtain cb where
      cb: "timers s (timeout e) = Some cb" "cb_id cb = i" "cb_reject cb = reject e" by blast
    have "timeout e \<notin> T" using K [OF mem] \<open>i \<notin> K\<close> by blast
    then have "timers s' (timeout e) = Some cb" using cb(1) by (simp add: tm)
    then show "\<exists>cb. timers s' (timeout e) = Some cb \<and> cb_id cb = i \<and> cb_reject cb = reject e"
      using cb by blast
  next
    fix t cb assume a: "timers s' t = Some cb"
    then have b: "timers s t = Some cb" "t \<notin> T" using armed by blast+
    show "t < nextTimer s'" using inv_timer [OF inv b(1)] nt by simp
    show "cb_reject cb < nextPromise s'" using inv_timer [OF inv b(1)] np by simp
    show "cb_reject cb \<notin> S \<union> P"
    proof
      assume "cb_reject cb \<in> S \<union> P"
      then have "cb_reject cb \<in> P" using inv_timer [OF inv b(1)] by blast
      from P [OF this] obtain t' cb' where
        "t' \<in> T" "timers s t' = Some cb'" "cb_reject cb' = cb_reject cb" by blast
      then show False using inv_uniq [OF inv b(1), of t' cb'] b(2) by auto
    qed
  next
    fix t t' cb cb'
    assume "timers s' t = Some cb" "timers s' t' = Some cb'" "cb_reject cb = cb_reject cb'"
    then show "t = t'" using armed inv_uniq [OF inv] by blast
  next
    fix p assume "p \<in> S \<union> P"
    then show "p < nextPromise s'"
      using inv_settled [OF inv] P inv_timer [OF inv] np by (metis Un_iff)
  qed
qed

lemma settled_Notify: "settled (map (\<lambda>h. Notify h m) hs) = []"
  by (induction hs) simp_all

lemma settled_append: "settled (xs @ ys) = settled xs @ settled ys"
  by (induction xs rule: settled.induct) simp_all

lemma settled_rejects:
  "settled (concat (map (\<lambda>(i, pending). [ClearTimeout (timeout pending),
       Reject (reject pending) (Error msg)]) es)) = map (\<lambda>x. reject (snd x)) es"
  by (induction es) (simp_all add: case_prod_unfold)

lemma inv_frame:
  assumes "settle_inv s S" and "pendingRequests s' = pendingRequests s"
    and "timers s' = timers s" and "nextTimer s' = nextTimer s"
    and "nextPromise s' = nextPromise s"
  shows "settle_inv s' S"
  using assms unfolding settle_inv_def by simp

lemma step_onEvent: "settle_inv s S \<Longrightarrow> settles_fresh S (onEvent h s, [])"
  unfolding settles_fresh_def by (auto simp: onEvent_def elim: inv_frame)

lemma step_handleMessage:
  assumes inv: "settle_inv s S"
  shows "settles_fresh S (handleMessage m w s)"
proof (cases "msg_type m = ''response'' \<and> map_of (pendingRequests s) (msg_id m) \<noteq> None")
  case False
  then have "settled (snd (handleMessage m w s)) = []"
    and "pendingRequests (fst (handleMessage m w s)) = pendingRequests s"
    and "timers (fst (handleMessage m w s)) = timers s"
    and "nextTimer (fst (handleMessage m w s)) = nextTimer s"
    and "nextPromise (fst (handleMessage m w s)) = nextPromise s"
    by (auto simp: handleMessage_def settled_Notify split: option.splits)
  then show ?thesis
    unfolding settles_fresh_def using inv_frame [OF inv] by simp
next
  case True
  then obtain e where look: "map_of (pendingRequests s) (msg_id m) = Some e" by blast
  define s' where "s' = s\<lparr>timers := (timers s)(timeout e := None),
      pendingRequests := AList.delete (msg_id m) (pendingRequests s)\<rparr>"
  have hm: "handleMessage m w s = (s', [ClearTimeout (timeout e), Resolve (resolve e) m])"
    using True look by (simp add: handleMessage_def clearTimeout_def s'_def)
  have mem: "(msg_id m, e) \<in> set (pendingRequests s)" using look by (rule map_of_SomeD)
  from inv_entry [OF inv mem] obtain cb where
    cb: "timers s (timeout e) = Some cb" "cb_id cb = msg_id m" "cb_reject cb = reject e" by blast
  have same: "resolve e = reject e" using inv_same [OF inv mem] .
  have "resolve e \<notin> S" using inv_timer [OF inv cb(1)] cb(3) same by simp
  moreover have "settle_inv s' (S \<union> {resolve e})"
  proof (rule inv_remove [OF inv, where T="{timeout e}" and K="{msg_id m}"])
    show "timers s' = timers s |` (- {timeout e})"
      by (auto simp: s'_def restrict_map_def fun_eq_iff)
    show "pendingRequests s' = filter (\<lambda>(k, _). k \<notin> {msg_id m}) (pendingRequests s)"
      by (auto simp: s'_def AList.delete_eq intro!: filter_cong)
    show "\<exists>t\<in>{timeout e}. \<exists>cb. timers s t = Some cb \<and> cb_reject cb = p" if "p \<in> {resolve e}" for p
      using that cb same by simp
    show "i \<in> {msg_id m}" if "(i, e') \<in> set (pendingRequests s)" "timeout e' \<in> {timeout e}" for i e'
      using inv_entry [OF inv that(1)] that(2) cb by auto
  qed (simp_all add: s'_def)
  ultimately show ?thesis unfolding settles_fresh_def hm by simp
qed

lemma step_timeoutFires:
  assumes inv: "settle_inv s S"
  shows "settles_fresh S (timeoutFires t s)"
proof (cases "timers s t")
  case None
  then show ?thesis using inv by (simp add: timeoutFires_def settles_fresh_def)
next
  case (Some cb)
  define s' where "s' = s\<lparr>timers := (timers s)(t := None),
      pendingRequests := AList.delete (cb_id cb) (pendingRequests s)\<rparr>"
  have tf: "timeoutFires t s = (s', [Reject (cb_reject cb) (Error (''Request timeout: '' @ cb_method cb))])"
    using Some by (simp add: timeoutFires_def s'_def)
  have "cb_reject cb \<notin> S" using inv_timer [OF inv Some] by simp
  moreover have "settle_inv s' (S \<union> {cb_reject cb})"
  proof (rule inv_remove [OF inv, where T="{t}" and K="{cb_id cb}"])
    show "timers s' = timers s |` (- {t})"
      by (auto simp: s'_def restrict_map_def fun_eq_iff)
    show "pendingRequests s' = filter (\<lambda>(k, _). k \<notin> {cb_id cb}) (pendingRequests s)"
      by (auto simp: s'_def AList.delete_eq intro!: filter_cong)
    show "\<exists>t'\<in>{t}. \<exists>cb'. timers s t' = Some cb' \<and> cb_reject cb' = p" if "p \<in> {cb_reject cb}" for p
      using that Some by simp
    show "i \<in> {cb_id cb}" if "(i, e') \<in> set (pendingRequests s)" "timeout e' \<in> {t}" for i e'
      using inv_entry [OF inv that(1)] that(2) Some by auto
  qed (simp_all add: s'_def)
  ultimately show ?thesis unfolding settles_fresh_def tf by simp
qed

lemma distinct_rejects:
  assumes inv: "settle_inv s S"
  shows "distinct (map (\<lambda>x. reject (snd x)) (pendingRequests s))"
proof -
  have "inj_on (\<lambda>x. reject (snd x)) (set (pendingRequests s))"
  proof (rule inj_onI)
    fix x y assume x: "x \<in> set (pendingRequests s)" and y: "y \<in> set (pendingRequests s)"
      and eq: "reject (snd x) = reject (snd y)"
    obtain i e where xe: "x = (i, e)" by (cases x)
    obtain j e' where ye: "y = (j, e')" by (cases y)
    from inv_entry [OF inv x [unfolded xe]] obtain cb where
      cb: "timers s (timeout e) = Some cb" "cb_id cb = i" "cb_reject cb = reject e" by blast
    from inv_entry [OF inv y [unfolded ye]] obtain cb' where
      cb': "timers s (timeout e') = Some cb'" "cb_id cb' = j" "cb_reject cb' = reject e'" by blast
    have "timeout e = timeout e'"
      using inv_uniq [OF inv cb(1) cb'(1)] cb(3) cb'(3) eq xe ye by simp
    then have "i = j" using cb cb' by simp
    then show "x = y"
      using inv_keys [OF inv] x y xe ye by (metis eq_key_imp_eq_value)
  qed
  moreover have "distinct (pendingRequests s)"
    using inv_keys [OF inv] by (simp add: distinct_map)
  ultimately show ?thesis by (simp add: distinct_map)
qed

text \<open>The bulk rejection of \<open>websocket.close\<close> and \<open>shutdown\<close>.\<close>

lemma step_rejectAll:
  assumes inv: "settle_inv s S"
    and s0: "pendingRequests s0 = pendingRequests s" "timers s0 = timers s"
      "nextTimer s0 = nextTimer s" "nextPromise s0 = nextPromise s"
  shows "settles_fresh S (rejectAll msg (pendingRequests s) s0)"
proof -
  have inv0: "settle_inv s0 S" using inv_frame [OF inv s0] .
  define P where "P = (\<lambda>x. reject (snd x)) ` set (pendingRequests s)"
  define s' where "s' = fst (rejectAll msg (pendingRequests s) s0)"
  have d: "P \<inter> S = {}"
  proof -
    have "reject e \<notin> S" if "(i, e) \<in> set (pendingRequests s)" for i e
      using inv_entry [OF inv that] inv_timer [OF inv] by metis
    then show ?thesis by (auto simp: P_def)
  qed
  have r: "settle_inv s' (S \<union> P)"
  proof (rule inv_remove [OF inv0, where T="timeout ` snd ` set (pendingRequests s)"
        and K="fst ` set (pendingRequests s)"])
    show "timers s' = timers s0 |` (- timeout ` snd ` set (pendingRequests s))"
      by (simp add: s'_def rejectAll_eq)
    show "pendingRequests s' = filter (\<lambda>(k, _). k \<notin> fst ` set (pendingRequests s)) (pendingRequests s0)"
      by (simp add: s'_def rejectAll_eq)
    show "\<exists>t\<in>timeout ` snd ` set (pendingRequests s). \<exists>cb. timers s0 t = Some cb \<and> cb_reject cb = p"
      if "p \<in> P" for p
    proof -
      from that obtain i e where mem: "(i, e) \<in> set (pendingRequests s)" and p: "p = reject e"
        by (auto simp: P_def)
      from inv_entry [OF inv mem] obtain cb where
        "timers s (timeout e) = Some cb" "cb_reject cb = reject e" by blast
      then show ?thesis using mem p s0 by force
    qed
    show "i \<in> fst ` set (pendingRequests s)" if "(i, e) \<in> set (pendingRequests s0)" for i e
      using that s0 by force
  qed (simp_all add: s'_def rejectAll_eq)
  show ?thesis
    unfolding settles_fresh_def
    using r d distinct_rejects [OF inv]
    by (simp add: rejectAll_eq settled_rejects P_def s'_def)
qed

lemma step_ws_close: "settle_inv s S \<Longrightarrow> settles_fresh S (ws_close w s)"
proof -
  assume inv: "settle_inv s S"
  have quiet: "settles_fresh S (s, [])" using inv by (simp add: settles_fresh_def)
  show ?thesis
    using quiet step_rejectAll [OF inv, of "s\<lparr>connection := None\<rparr>" "''Connection lost''"]
    by (simp add: ws_close_def split: option.splits)
qed

lemma step_open:
  assumes inv: "settle_inv s S"
  shows "settles_fresh S (ws_open w now now' s)"
proof (cases "connection s")
  case None
  have "settle_inv (s\<lparr>connection := Some \<lparr>ws = w, pluginVersion = JStr ''unknown'',
      connectedAt = now\<rparr>\<rparr>) S"
    by (rule inv_frame [OF inv]) simp_all
  then show ?thesis using None by (simp add: ws_open_def settles_fresh_def)
next
  case (Some c)
  obtain s' effs where cl: "ws_close (ws c) s = (s', effs)" by (cases "ws_close (ws c) s")
  have a: "settles_fresh S (s', effs)" using step_ws_close [OF inv, of "ws c"] cl by simp
  have op: "ws_open w now now' s =
      (s'\<lparr>connection := Some \<lparr>ws = w, pluginVersion = JStr ''unknown'', connectedAt = now\<rparr>\<rparr>,
       WsClose (ws c) 1000 ''New connection established'' # effs
         @ [WsSend w (Welcome ''0.1.0'' now')])"
    using Some cl by (simp add: ws_open_def)
  show ?thesis
    unfolding op settles_fresh_def
    using a by (auto simp: settles_fresh_def settled_append elim!: inv_frame)
qed

text \<open>The close handler on an empty table only clears the slot.\<close>

lemma ws_close_empty_table:
  "connection s = Some c \<Longrightarrow> pendingRequests s = [] \<Longrightarrow>
   ws_close (ws c) s = (s\<lparr>connection := None\<rparr>, [])"
  by (simp add: ws_close_def)

lemma step_shutdown:
  assumes inv: "settle_inv s S"
  shows "settles_fresh S (shutdown s)"
proof -
  obtain s1 effs where ra: "rejectAll ''Bridge shutting down'' (pendingRequests s) s = (s1, effs)"
    by (cases "rejectAll ''Bridge shutting down'' (pendingRequests s) s")
  have a: "settles_fresh S (s1, effs)"
    using step_rejectAll [OF inv, of s "''Bridge shutting down''"] ra by simp
  obtain s2 closing where cl: "(case connection s1 of
        Some c \<Rightarrow> (s1\<lparr>connection := None\<rparr>, [WsClose (ws c) 1000 ''Server shutting down''])
      | None \<Rightarrow> (s1, [])) = (s2, closing)"
    by (cases "connection s1") auto
  have fr: "pendingRequests s2 = pendingRequests s1" "timers s2 = timers s1"
    "nextTimer s2 = nextTimer s1" "nextPromise s2 = nextPromise s1" "settled closing = []"
    using cl by (auto split: option.splits)
  have sh: "shutdown s = (s2\<lparr>serverRunning := False\<rparr>, effs @ closing @ [ServerStop])"
    by (simp add: shutdown_def ra cl)
  show ?thesis
    unfolding sh settles_fresh_def
    using a fr
    by (auto simp: settles_fresh_def settled_append elim!: inv_frame)
qed

lemma inv_grow:
  assumes inv: "settle_inv s S"
    and "pendingRequests s' = pendingRequests s" and "timers s' = timers s"
    and "nextTimer s \<le> nextTimer s'" and "nextPromise s \<le> nextPromise s'"
    and S': "\<And>p. p \<in> S' \<Longrightarrow> p \<in> S \<or> (nextPromise s \<le> p \<and> p < nextPromise s')"
  shows "settle_inv s' S'"
proof (rule settle_invI)
  fix t cb assume a: "timers s' t = Some cb"
  then have b: "timers s t = Some cb" using assms by simp
  show "t < nextTimer s'" "cb_reject cb < nextPromise s'"
    using inv_timer [OF inv b] assms by simp_all
  show "cb_reject cb \<notin> S'" using inv_timer [OF inv b] S' by fastforce
next
  fix p assume "p \<in> S'"
  then show "p < nextPromise s'" using S' inv_settled [OF inv] assms(5) by fastforce
qed (use assms inv_keys [OF inv] inv_same [OF inv] inv_entry [OF inv] inv_uniq [OF inv] in \<open>simp_all\<close>)

lemma step_sendRequest:
  assumes inv: "settle_inv s S"
  shows "settles_fresh S (snd (sendRequest method params env s))"
proof (cases "connection s")
  case None
  have "settle_inv (s\<lparr>nextPromise := Suc (nextPromise s)\<rparr>) (S \<union> {nextPromise s})"
    by (rule inv_grow [OF inv]) auto
  moreover have "nextPromise s \<notin> S" using inv_settled [OF inv] by blast
  ultimately show ?thesis
    using None by (simp add: sendRequest_def settles_fresh_def Let_def)
next
  case (Some c)
  define p where "p = nextPromise s"
  define t where "t = nextTimer s"
  define i where "i = randomUUID env"
  define cb where "cb = \<lparr>delay = REQUEST_TIMEOUT_MS, cb_id = i, cb_method = method, cb_reject = p\<rparr>"
  define v where "v = \<lparr>resolve = p, reject = p, timeout = t\<rparr>"
  have unarmed: "timers s t = None"
    using inv_timer [OF inv, of t] by (cases "timers s t") (auto simp: t_def)
  have pS: "p \<notin> S" using inv_settled [OF inv] by (auto simp: p_def)
  show ?thesis
  proof (cases "\<exists>e. wsSend env = SendThrows e")
    case False
    define s2 where "s2 = s\<lparr>nextPromise := Suc p, nextTimer := Suc t,
        timers := (timers s)(t \<mapsto> cb),
        pendingRequests := AList.update i v (pendingRequests s)\<rparr>"
    have sr: "\<exists>effs. snd (sendRequest method params env s) = (s2, effs) \<and> settled effs = []"
      using Some False
      by (cases "wsSend env")
        (simp_all add: sendRequest_def Let_def s2_def p_def t_def i_def cb_def v_def)
    have keys: "distinct (map fst (pendingRequests s2))"
      using inv_keys [OF inv] by (simp add: s2_def distinct_update)
    have mem: "(j, e) = (i, v) \<or> ((j, e) \<in> set (pendingRequests s) \<and> j \<noteq> i)"
      if "(j, e) \<in> set (pendingRequests s2)" for j e
    proof -
      have "map_of (pendingRequests s2) j = Some e"
        using keys that by simp
      then have "((map_of (pendingRequests s))(i \<mapsto> v)) j = Some e"
        by (simp add: s2_def update_conv')
      then show ?thesis
        by (auto split: if_splits dest: map_of_SomeD)
    qed
    have "settle_inv s2 S"
    proof (rule settle_invI)
      show "distinct (map fst (pendingRequests s2))" by (rule keys)
    next
      fix j e assume a: "(j, e) \<in> set (pendingRequests s2)"
      show "resolve e = reject e"
        using mem [OF a] inv_same [OF inv] by (auto simp: v_def)
      show "\<exists>cb. timers s2 (timeout e) = Some cb \<and> cb_id cb = j \<and> cb_reject cb = reject e"
      proof (cases "(j, e) = (i, v)")
        case True
        then show ?thesis by (simp add: s2_def v_def cb_def)
      next
        case False
        then have old: "(j, e) \<in> set (pendingRequests s)" using mem [OF a] by blast
        from inv_entry [OF inv old] obtain cb' where
          cb': "timers s (timeout e) = Some cb'" "cb_id cb' = j" "cb_reject cb' = reject e" by blast
        then have "timeout e \<noteq> t" using unarmed by auto
        then show ?thesis using cb' by (simp add: s2_def)
      qed
    next
      fix t' cb' assume a: "timers s2 t' = Some cb'"
      then have b: "(t' = t \<and> cb' = cb) \<or> (t' \<noteq> t \<and> timers s t' = Some cb')"
        by (auto simp: s2_def split: if_splits)
      show "t' < nextTimer s2" using b inv_timer [OF inv, of t' cb'] by (auto simp: s2_def t_def)
      show "cb_reject cb' < nextPromise s2"
        using b inv_timer [OF inv, of t' cb'] by (auto simp: s2_def cb_def p_def)
      show "cb_reject cb' \<notin> S"
        using b inv_timer [OF inv, of t' cb'] pS by (auto simp: cb_def)
    next
      fix t1 t2 cb1 cb2
      assume a: "timers s2 t1 = Some cb1" "timers s2 t2 = Some cb2" "cb_reject cb1 = cb_reject cb2"
      have b1: "(t1 = t \<and> cb1 = cb) \<or> (t1 \<noteq> t \<and> timers s t1 = Some cb1)"
        using a(1) by (auto simp: s2_def split: if_splits)
      have b2: "(t2 = t \<and> cb2 = cb) \<or> (t2 \<noteq> t \<and> timers s t2 = Some cb2)"
        using a(2) by (auto simp: s2_def split: if_splits)
      have old: "cb_reject cb' \<noteq> p" if "timers s t' = Some cb'" for t' cb'
        using inv_timer [OF inv that] by (simp add: p_def)
      have new: "cb_reject cb = p" by (simp add: cb_def)
      show "t1 = t2"
      proof (cases "t1 = t")
        case True
        then have "cb_reject cb2 = p" using b1 a(3) new by auto
        then show ?thesis using b2 old True by blast
      next
        case False
        then have c1: "timers s t1 = Some cb1" using b1 by blast
        then have "cb_reject cb2 \<noteq> p" using old a(3) by metis
        then have "timers s t2 = Some cb2" using b2 new by blast
        then show ?thesis using inv_uniq [OF inv c1] a(3) by blast
      qed
    next
      fix q assume "q \<in> S"
      then show "q < nextPromise s2" using inv_settled [OF inv] by (fastforce simp: s2_def p_def)
    qed
    then show ?thesis using sr unfolding settles_fresh_def by auto
  next
    case True
    then obtain e where SendThrows: "wsSend env = SendThrows e" by blast
    define s4 where "s4 = s\<lparr>nextPromise := Suc p, nextTimer := Suc t,
        timers := (timers s)(t := None),
        pendingRequests := AList.delete i (pendingRequests s)\<rparr>"
    have sr: "snd (sendRequest method params env s) = (s4, [ClearTimeout t, Reject p e])"
      using Some SendThrows
      by (simp add: sendRequest_def Let_def clearTimeout_def s4_def p_def t_def i_def
          delete_update_same)
    define sa where "sa = s\<lparr>pendingRequests := AList.delete i (pendingRequests s)\<rparr>"
    have "settle_inv sa (S \<union> {})"
    proof (rule inv_remove [OF inv, where T="{}" and K="{i}"])
      show "pendingRequests sa = filter (\<lambda>(k, _). k \<notin> {i}) (pendingRequests s)"
        by (auto simp: sa_def AList.delete_eq intro!: filter_cong)
    qed (simp_all add: sa_def restrict_map_def)
    then have "settle_inv sa S" by simp
    then have "settle_inv s4 (S \<union> {p})"
    proof (rule inv_grow)
      show "timers s4 = timers sa" using unarmed by (auto simp: s4_def sa_def fun_eq_iff)
    qed (auto simp: s4_def sa_def p_def t_def)
    then show ?thesis unfolding sr settles_fresh_def using pS by simp
  qed
qed

lemma step_react: "settle_inv s S \<Longrightarrow> settles_fresh S (react r s)"
  by (cases r)
     (simp_all add: step_open step_handleMessage step_ws_close step_timeoutFires
        step_sendRequest step_shutdown step_onEvent)

lemma run_settles_fresh: "settle_inv s S \<Longrightarrow> settles_fresh S (run rs s)"
proof (induction rs arbitrary: s S)
  case Nil
  then show ?case by (simp add: settles_fresh_def)
next
  case (Cons r rs)
  obtain s1 effs1 where r1: "react r s = (s1, effs1)" by (cases "react r s")
  obtain s2 effs2 where r2: "run rs s1 = (s2, effs2)" by (cases "run rs s1")
  have a: "settles_fresh S (s1, effs1)" using step_react [OF Cons.prems, of r] r1 by simp
  then have "settle_inv s1 (S \<union> set (settled effs1))" by (simp add: settles_fresh_def)
  from Cons.IH [OF this, unfolded r2]
  have b: "settles_fresh (S \<union> set (settled effs1)) (s2, effs2)" .
  show ?case
    using a b unfolding settles_fresh_def
    by (auto simp: r1 r2 settled_append Un_assoc)
qed

lemma inv_createBridge: "settle_inv createBridge {}"
  by (simp add: settle_inv_def createBridge_def)

lemma settle_once: "distinct (settled (snd (run rs createBridge)))"
  using run_settles_fresh [OF inv_createBridge, of rs] by (simp add: settles_fresh_def)

section \<open>Lemmas about the documentation lookups\<close>

lemma getPropertyDocs_returns:
  "superclass_chain_ends cache className \<Longrightarrow> \<exists>r. getPropertyDocs cache className propertyName = Some r"
proof (induction rule: superclass_chain_ends.induct)
  case (absent className)
  then show ?case by (subst getPropertyDocs.simps) simp
next
  case (root className classData)
  then show ?case by (subst getPropertyDocs.simps) (simp split: option.splits)
next
  case (link className classData)
  then show ?case by (subst getPropertyDocs.simps) (simp split: option.splits)
qed

lemma getMethodDocs_returns:
  "superclass_chain_ends cache className \<Longrightarrow> \<exists>r. getMethodDocs cache className methodName = Some r"
proof (induction rule: superclass_chain_ends.induct)
  case (absent className)
  then show ?case by (subst getMethodDocs.simps) simp
next
  case (root className classData)
  then show ?case by (subst getMethodDocs.simps) (simp split: option.splits)
next
  case (link className classData)
  then show ?case by (subst getMethodDocs.simps) (simp split: option.splits)
qed

lemma getEventDocs_returns:
  "superclass_chain_ends cache className \<Longrightarrow> \<exists>r. getEventDocs cache className eventName = Some r"
proof (induction rule: superclass_chain_ends.induct)
  case (absent className)
  then show ?case by (subst getEventDocs.simps) simp
next
  case (root className classData)
  then show ?case by (subst getEventDocs.simps) (simp split: option.splits)
next
  case (link className classData)
  then show ?case by (subst getEventDocs.simps) (simp split: option.splits)
qed

lemma getClassDocs_returns:
  "superclass_chain_ends cache className \<Longrightarrow> \<exists>r. getClassDocs cache className incl = Some r"
proof (induction arbitrary: incl rule: superclass_chain_ends.induct)
  case (absent className)
  then show ?case by (subst getClassDocs.simps) simp
next
  case (root className classData)
  then show ?case by (subst getClassDocs.simps) (simp add: Let_def)
next
  case (link className classData)
  from link.IH [of True] obtain r where
    r: "getClassDocs cache (Superclass classData) True = Some r" by blast
  show ?case
    by (subst getClassDocs.simps) (simp add: Let_def link.hyps r split: option.splits)
qed

lemma getClassDocs_own: "\<exists>r. getClassDocs cache className False = Some r"
  by (subst getClassDocs.simps) (simp add: Let_def split: option.splits)

lemma getClassDocs_returns_only_if:
  assumes "getClassDocs cache className incl = Some r"
  shows "\<not> incl \<or> superclass_chain_ends cache className"
proof (rule getClassDocs.raw_induct
    [where P = "\<lambda>c cn i r. \<not> i \<or> superclass_chain_ends c cn", OF _ assms], goal_cases)
  case (1 getClassDocs' cache className incl r)
  note IH = this(1) and eq = this(2)
  show ?case
  proof (cases incl)
    case False
    then show ?thesis by simp
  next
    case True
    have "superclass_chain_ends cache className"
    proof (cases "findClass cache className")
      case None
      then show ?thesis by (rule superclass_chain_ends.absent)
    next
      case (Some classData)
      show ?thesis
      proof (cases "hasSuperclass classData")
        case False
        with Some show ?thesis by (rule superclass_chain_ends.root)
      next
        case has: True
        from eq Some has True
        obtain parentDocs where "getClassDocs' cache (Superclass classData) True = Some parentDocs"
          by (auto simp: Let_def split: Option.bind_splits)
        from IH [OF this] have "superclass_chain_ends cache (Superclass classData)" by simp
        with Some has show ?thesis by (rule superclass_chain_ends.link)
      qed
    qed
    then show ?thesis by simp
  qed
qed

lemma cyclic_not_ends:
  "superclass_chain_ends cyclic_cache cn \<Longrightarrow> cn \<noteq> ''Part'' \<and> cn \<noteq> ''BasePart''"
  by (induction rule: superclass_chain_ends.induct)
     (auto simp: findClass_def cyclic_cache_def hasSuperclass_def split: if_splits)

lemma getPropertyDocs_diverges:
  "getPropertyDocs cyclic_cache ''Part'' propertyName = None"
proof -
  have "c \<noteq> cyclic_cache \<or> (cn \<noteq> ''Part'' \<and> cn \<noteq> ''BasePart'')"
    if "getPropertyDocs c cn pn = Some r" for c cn pn r
  proof (rule getPropertyDocs.raw_induct
      [where P = "\<lambda>c cn pn r. c \<noteq> cyclic_cache \<or> (cn \<noteq> ''Part'' \<and> cn \<noteq> ''BasePart'')",
        OF _ that], goal_cases)
    case (1 getPropertyDocs' cache className propertyName r)
    note IH = this(1) and eq = this(2)
    have False if c: "cache = cyclic_cache" and "className = ''Part''"
    proof -
      from eq that have "getPropertyDocs' cyclic_cache ''BasePart'' propertyName = Some r"
        by (simp add: findClass_def cyclic_cache_def hasSuperclass_def)
      from IH [OF this] show False by simp
    qed
    moreover have False if c: "cache = cyclic_cache" and "className = ''BasePart''"
    proof -
      from eq that have "getPropertyDocs' cyclic_cache ''Part'' propertyName = Some r"
        by (simp add: findClass_def cyclic_cache_def hasSuperclass_def)
      from IH [OF this] show False by simp
    qed
    ultimately show ?case by blast
  qed
  then show ?thesis by (cases "getPropertyDocs cyclic_cache ''Part'' propertyName") auto
qed

lemma getMethodDocs_diverges:
  "getMethodDocs cyclic_cache ''Part'' methodName = None"
proof -
  have "c \<noteq> cyclic_cache \<or> (cn \<noteq> ''Part'' \<and> cn \<noteq> ''BasePart'')"
    if "getMethodDocs c cn pn = Some r" for c cn pn r
  proof (rule getMethodDocs.raw_induct
      [where P = "\<lambda>c cn pn r. c \<noteq> cyclic_cache \<or> (cn \<noteq> ''Part'' \<and> cn \<noteq> ''BasePart'')",
        OF _ that], goal_cases)
    case (1 getMethodDocs' cache className methodName r)
    note IH = this(1) and eq = this(2)
    have False if c: "cache = cyclic_cache" and "className = ''Part''"
    proof -
      from eq that have "getMethodDocs' cyclic_cache ''BasePart'' methodName = Some r"
        by (simp add: findClass_def cyclic_cache_def hasSuperclass_def)
      from IH [OF this] show False by simp
    qed
    moreover have False if c: "cache = cyclic_cache" and "className = ''BasePart''"
    proof -
      from eq that have "getMethodDocs' cyclic_cache ''Part'' methodName = Some r"
        by (simp add: findClass_def cyclic_cache_def hasSuperclass_def)
      from IH [OF this] show False by simp
    qed
    ultimately show ?case by blast
  qed
  then show ?thesis by (cases "getMethodDocs cyclic_cache ''Part'' methodName") auto
qed

lemma getEventDocs_diverges:
  "getEventDocs cyclic_cache ''Part'' eventName = None"
proof -
  have "c \<noteq> cyclic_cache \<or> (cn \<noteq> ''Part'' \<and> cn \<noteq> ''BasePart'')"
    if "getEventDocs c cn pn = Some r" for c cn pn r
  proof (rule getEventDocs.raw_induct
      [where P = "\<lambda>c cn pn r. c \<noteq> cyclic_cache \<or> (cn \<noteq> ''Part'' \<and> cn \<noteq> ''BasePart'')",
        OF _ that], goal_cases)
    case (1 getEventDocs' cache className eventName r)
    note IH = this(1) and eq = this(2)
    have False if c: "cache = cyclic_cache" and "className = ''Part''"
    proof -
      from eq that have "getEventDocs' cyclic_cache ''BasePart'' eventName = Some r"
        by (simp add: findClass_def cyclic_cache_def hasSuperclass_def)
      from IH [OF this] show False by simp
    qed
    moreover have False if c: "cache = cyclic_cache" and "className = ''BasePart''"
    proof -
      from eq that have "getEventDocs' cyclic_cache ''Part'' eventName = Some r"
        by (simp add: findClass_def cyclic_cache_def hasSuperclass_def)
      from IH [OF this] show False by simp
    qed
    ultimately show ?case by blast
  qed
  then show ?thesis by (cases "getEventDocs cyclic_cache ''Part'' eventName") auto
qed

section \<open>Evaluation of the examples\<close>

lemma two_pending_eq:
  "two_pending =
     \<lparr>connection = Some example_connection,
      pendingRequests = [(''id-a'', \<lparr>resolve = 0, reject = 0, timeout = 0\<rparr>),
                         (''id-b'', \<lparr>resolve = 1, reject = 1, timeout = 1\<rparr>)],
      eventHandlers = [],
      timers = [0 \<mapsto> \<lparr>delay = 30000, cb_id = ''id-a'', cb_method = ''get_children'', cb_reject = 0\<rparr>,
                1 \<mapsto> \<lparr>delay = 30000, cb_id = ''id-b'', cb_method = ''get_selection'', cb_reject = 1\<rparr>],
      nextTimer = 2, nextPromise = 2, serverRunning = True\<rparr>"
  by (simp add: two_pending_def example_env_def example_connection_def createBridge_def
      ws_open_def sendRequest_def REQUEST_TIMEOUT_MS_def Let_def)

section \<open>The dispatcher\<close>

text \<open>
  Claim C1. A tool registered with \<open>requiresPlugin = true\<close> that is dispatched while the
  bridge has no connection fails with the code \<open>CONNECTION_LOST\<close>: the request handler of
  the server answers so before it calls \<open>handleToolCall\<close>, and \<open>handleToolCall\<close> itself
  throws before it calls the tool's handler. Either way the bridge is left as it was (the
  table, the armed timers and the next timer and promise handles are those of before) and
  nothing is sent, cleared or settled; the answer does not depend on the id, the clock or
  the socket, which are never consulted. The statement holds whatever the registered
  handler is.
\<close>

theorem plugin_tool_requires_connection:
  assumes "map_of tools name = Some toolDef" and "requiresPlugin toolDef"
    and "\<not> isConnected s"
  shows "callTool tools docs name args env s =
           (Replied (ToolError ''CONNECTION_LOST''
              ''VFX Forge plugin is not connected. Please ensure the plugin is running in Roblox Studio.''),
            s, [])
       \<and> handleToolCall tools docs name args env s =
           (Settled (Inl (Error (''Tool '' @ [CHR 0x22] @ name @ [CHR 0x22]
                   @ '' requires plugin connection. Plugin is not connected.''))), s, [])"
  using assms by (simp add: callTool_def handleToolCall_def isPluginTool_def)

theorem plugin_tool_requires_connection_witness:
  "\<not> isConnected createBridge
   \<and> isPluginTool example_tools ''get_children''
   \<and> callTool example_tools None ''get_children'' [(''path'', JStr ''Workspace'')]
         (example_env ''id-a'') createBridge
     = (Replied (ToolError ''CONNECTION_LOST''
          ''VFX Forge plugin is not connected. Please ensure the plugin is running in Roblox Studio.''),
        createBridge, [])
   \<and> length (pendingRequests (fst (snd (callTool example_tools None ''get_children''
         [(''path'', JStr ''Workspace'')] (example_env ''id-a'') createBridge)))) = 0"
  using plugin_tool_requires_connection [of example_tools "''get_children''" _ createBridge None
      "[(''path'', JStr ''Workspace'')]" "example_env ''id-a''"]
  by (simp add: example_tools_def definePluginTool_def isConnected_def createBridge_def
      isPluginTool_def)

text \<open>
  Claim C9. A name that is not in the registry makes \<open>handleToolCall\<close> throw
  \<open>Unknown tool: name\<close>, which the request handler reports as \<open>OPERATION_FAILED\<close>; the
  bridge is left as it was and nothing is sent or settled. This is so in every bridge
  state, connected or not: \<open>isPluginTool\<close> is false for such a name, so the
  \<open>CONNECTION_LOST\<close> answer is not given.
\<close>

theorem unknown_tool_rejected:
  assumes "map_of tools name = None"
  shows "handleToolCall tools docs name args env s =
           (Settled (Inl (Error (''Unknown tool: '' @ name))), s, [])
       \<and> callTool tools docs name args env s =
           (Replied (ToolError ''OPERATION_FAILED'' (''Unknown tool: '' @ name)), s, [])
       \<and> \<not> isPluginTool tools name"
  using assms by (simp add: callTool_def handleToolCall_def isPluginTool_def)

theorem unknown_tool_rejected_witness:
  "\<not> isConnected createBridge
   \<and> handleToolCall example_tools None ''get_parent'' [] (example_env ''id-a'') createBridge
     = (Settled (Inl (Error ''Unknown tool: get_parent'')), createBridge, [])
   \<and> callTool example_tools None ''get_parent'' [] (example_env ''id-a'') createBridge
     = (Replied (ToolError ''OPERATION_FAILED'' ''Unknown tool: get_parent''), createBridge, [])
   \<and> callTool example_tools None ''get_parent'' [] (example_env ''id-a'') two_pending
     = (Replied (ToolError ''OPERATION_FAILED'' ''Unknown tool: get_parent''), two_pending, [])"
  using unknown_tool_rejected [of example_tools "''get_parent''" None "[]" "example_env ''id-a''" createBridge]
    unknown_tool_rejected [of example_tools "''get_parent''" None "[]" "example_env ''id-a''" two_pending]
  by (simp add: example_tools_def definePluginTool_def isConnected_def createBridge_def)

section \<open>Responses\<close>

text \<open>The handler of a plugin tool, called while connected: it awaits the promise of
  the request it has sent, which is the promise of the new entry.\<close>

lemma plugin_tool_awaits_request:
  assumes "connection s = Some c" and "wsSend env = SendOk"
  shows "\<exists>s1 effs.
           handleToolCall (definePluginTool name description schema tools) docs name args env s
             = (Awaiting (nextPromise s) pluginToolResume, s1, effs)
         \<and> map_of (pendingRequests s1) (randomUUID env)
             = Some \<lparr>resolve = nextPromise s, reject = nextPromise s, timeout = nextTimer s\<rparr>"
  using assms
  by (simp add: handleToolCall_def definePluginTool_def update_conv' isConnected_def
      pluginToolHandler_def sendRequest_def Let_def)

text \<open>What the request handler then answers when the response arrives.\<close>

lemma plugin_tool_reply:
  "resumeCall (Suspended p (\<lambda>m. reply_of (pluginToolResume m))) (Resolve p m)
     = Some (case msg_error m of
               None \<Rightarrow> ToolResult (msg_result m)
             | Some e \<Rightarrow> ToolError ''OPERATION_FAILED'' (err_code e @ '': '' @ err_message e))"
  by (simp add: pluginToolResume_def split: option.splits)


lemma connected_eq:
  "connected =
     \<lparr>connection = Some example_connection, pendingRequests = [], eventHandlers = [],
      timers = Map.empty, nextTimer = 0, nextPromise = 0, serverRunning = True\<rparr>"
  by (simp add: connected_def example_connection_def createBridge_def ws_open_def)


text \<open>
  Claim C4. A response whose id is not a key of the table changes nothing and calls
  nothing: the table, the timers and the observers are those of before. That is the case
  of a second response after the first (whose timer, being cancelled, does not fire
  either), of a response after the request's timeout has fired, and of a response after the close of the active socket or after shutdown, since
  each of these removed the key. And in every run of the bridge from its creation,
  whatever the reactions and their order, no promise is settled twice.
\<close>

theorem unmatched_response_dropped:
  assumes "msg_type m = ''response''"
  shows "(map_of (pendingRequests s) (msg_id m) = None \<longrightarrow> handleMessage m w s = (s, []))
       \<and> handleMessage m w' (fst (handleMessage m w s)) = (fst (handleMessage m w s), [])
       \<and> (\<forall>pending. map_of (pendingRequests s) (msg_id m) = Some pending \<longrightarrow>
            timeoutFires (timeout pending) (fst (handleMessage m w s))
              = (fst (handleMessage m w s), []))
       \<and> (\<forall>cb. timers s t = Some cb \<and> cb_id cb = msg_id m \<longrightarrow>
            handleMessage m w (fst (timeoutFires t s)) = (fst (timeoutFires t s), []))
       \<and> (\<forall>c. connection s = Some c \<longrightarrow>
            handleMessage m w (fst (ws_close (ws c) s)) = (fst (ws_close (ws c) s), []))
       \<and> handleMessage m w (fst (shutdown s)) = (fst (shutdown s), [])
       \<and> distinct (settled (snd (run rs createBridge)))"
proof -
  have drop: "handleMessage m w1 s1 = (s1, [])"
    if "map_of (pendingRequests s1) (msg_id m) = None" for w1 s1
    using assms that by (simp add: handleMessage_def)
  have twice: "handleMessage m w' (fst (handleMessage m w s)) = (fst (handleMessage m w s), [])"
  proof (cases "map_of (pendingRequests s) (msg_id m)")
    case None
    then show ?thesis using drop by simp
  next
    case (Some pending)
    have "map_of (pendingRequests (fst (handleMessage m w s))) (msg_id m) = None"
      using assms Some by (simp add: handleMessage_def clearTimeout_def delete_conv')
    then show ?thesis by (rule drop)
  qed
  have cleared: "timeoutFires (timeout pending) (fst (handleMessage m w s))
      = (fst (handleMessage m w s), [])"
    if "map_of (pendingRequests s) (msg_id m) = Some pending" for pending
    using assms that by (simp add: handleMessage_def clearTimeout_def timeoutFires_def)
  have late: "handleMessage m w (fst (timeoutFires t s)) = (fst (timeoutFires t s), [])"
    if "timers s t = Some cb" "cb_id cb = msg_id m" for cb
  proof (rule drop)
    show "map_of (pendingRequests (fst (timeoutFires t s))) (msg_id m) = None"
      using that by (simp add: timeoutFires_def delete_conv')
  qed
  have closed: "handleMessage m w (fst (ws_close (ws c) s)) = (fst (ws_close (ws c) s), [])"
    if "connection s = Some c" for c
  proof (rule drop)
    show "map_of (pendingRequests (fst (ws_close (ws c) s))) (msg_id m) = None"
      using that by (simp add: ws_close_def rejectAll_eq filter_own_keys)
  qed
  have down: "handleMessage m w (fst (shutdown s)) = (fst (shutdown s), [])"
  proof (rule drop)
    show "map_of (pendingRequests (fst (shutdown s))) (msg_id m) = None"
      by (simp add: shutdown_def rejectAll_eq filter_own_keys split: option.splits)
  qed
  show ?thesis using drop twice cleared late closed down settle_once by blast
qed

theorem unmatched_response_dropped_witness:
  "handleMessage (response_example ''id-z'' None) 1 two_pending = (two_pending, [])
   \<and> settled (snd (run [Open 1 10 11,
        SendRequest ''get_children'' [] (example_env ''id-a''),
        Message 1 (response_example ''id-a'' None),
        Message 1 (response_example ''id-a'' None),
        TimeoutFires 0, Close 1] createBridge)) = [0]"
  using unmatched_response_dropped [of "response_example ''id-z'' None" two_pending 1 1 0
      "[Open 1 10 11, SendRequest ''get_children'' [] (example_env ''id-a''),
        Message 1 (response_example ''id-a'' None), Message 1 (response_example ''id-a'' None),
        TimeoutFires 0, Close 1]"]
  by (simp add: two_pending_eq response_example_def example_env_def createBridge_def
      ws_open_def sendRequest_def handleMessage_def timeoutFires_def ws_close_def
      clearTimeout_def Let_def)

section \<open>Timeouts\<close>

text \<open>
  Claim C5, as the code has it. A request that was sent arms a timer of
  \<open>REQUEST_TIMEOUT_MS\<close> = 30000 milliseconds; when that timer fires, the entry is removed
  from the table and the request's promise is rejected with the error
  \<open>Request timeout: method\<close>, in whatever state the bridge is by then. The message
  names the method; it does not name the duration.
\<close>

theorem timeout_rejects_with_method:
  assumes "connection s = Some c" and "wsSend env = SendOk"
  shows "\<exists>s1.
           sendRequest method params env s
             = (nextPromise s, s1, [WsSend (ws c) (RequestFrame
                  \<lparr>msg_id = randomUUID env, msg_type = ''request'', msg_timestamp = dateNow env,
                   msg_method = Some method, msg_params = Some params,
                   msg_result = None, msg_error = None\<rparr>)])
         \<and> timers s1 (nextTimer s)
             = Some \<lparr>delay = 30000, cb_id = randomUUID env, cb_method = method,
                     cb_reject = nextPromise s\<rparr>
         \<and> map_of (pendingRequests s1) (randomUUID env)
             = Some \<lparr>resolve = nextPromise s, reject = nextPromise s, timeout = nextTimer s\<rparr>
         \<and> (\<forall>s'. timers s' (nextTimer s)
                 = Some \<lparr>delay = 30000, cb_id = randomUUID env, cb_method = method,
                         cb_reject = nextPromise s\<rparr> \<longrightarrow>
                timeoutFires (nextTimer s) s'
                  = (s'\<lparr>timers := (timers s')(nextTimer s := None),
                        pendingRequests := AList.delete (randomUUID env) (pendingRequests s')\<rparr>,
                     [Reject (nextPromise s) (Error (''Request timeout: '' @ method))])
              \<and> map_of (pendingRequests (fst (timeoutFires (nextTimer s) s'))) (randomUUID env)
                  = None
              \<and> timers (fst (timeoutFires (nextTimer s) s')) (nextTimer s) = None)"
  using assms
  by (simp add: sendRequest_def timeoutFires_def Let_def REQUEST_TIMEOUT_MS_def
      update_conv' delete_conv')

theorem timeout_rejects_with_method_witness:
  "\<exists>s1.
     sendRequest ''get_tags'' [] (example_env ''id-c'') two_pending
       = (2, s1, [WsSend 1 (RequestFrame
            \<lparr>msg_id = ''id-c'', msg_type = ''request'', msg_timestamp = 20,
             msg_method = Some ''get_tags'', msg_params = Some [],
             msg_result = None, msg_error = None\<rparr>)])
   \<and> snd (timeoutFires 2 s1) = [Reject 2 (Error ''Request timeout: get_tags'')]
   \<and> map_of (pendingRequests (fst (timeoutFires 2 s1))) ''id-c'' = None"
proof -
  from timeout_rejects_with_method [of two_pending example_connection "example_env ''id-c''"
      "''get_tags''" "[]"]
  obtain s1 where
    sent: "sendRequest ''get_tags'' [] (example_env ''id-c'') two_pending
       = (2, s1, [WsSend 1 (RequestFrame
            \<lparr>msg_id = ''id-c'', msg_type = ''request'', msg_timestamp = 20,
             msg_method = Some ''get_tags'', msg_params = Some [],
             msg_result = None, msg_error = None\<rparr>)])"
    and armed: "timers s1 2 = Some \<lparr>delay = 30000, cb_id = ''id-c'', cb_method = ''get_tags'',
                     cb_reject = 2\<rparr>"
    and fires: "\<And>s'. timers s' 2 = Some \<lparr>delay = 30000, cb_id = ''id-c'',
                     cb_method = ''get_tags'', cb_reject = 2\<rparr> \<Longrightarrow>
                timeoutFires 2 s'
                  = (s'\<lparr>timers := (timers s')(2 := None),
                        pendingRequests := AList.delete ''id-c'' (pendingRequests s')\<rparr>,
                     [Reject 2 (Error (''Request timeout: '' @ ''get_tags''))])
              \<and> map_of (pendingRequests (fst (timeoutFires 2 s'))) ''id-c'' = None"
    by (simp add: two_pending_eq example_env_def example_connection_def) blast
  from fires [OF armed] sent show ?thesis by (auto simp: delete_conv')
qed

text \<open>
  The timeout error of a \<open>get_children\<close> request is \<open>Request timeout: get_children\<close>:
  it holds no digit, so it names no duration.
\<close>

theorem timeout_message_counterexample:
  "snd (timeoutFires 0 two_pending) = [Reject 0 (Error ''Request timeout: get_children'')]
   \<and> set ''Request timeout: get_children'' \<inter> set ''0123456789'' = {}"
  by (simp add: two_pending_eq timeoutFires_def)

section \<open>The connection slot\<close>

text \<open>
  Claim C6, as the code has it. When a socket opens while a connection is installed, the
  prior socket is closed with code 1000 and the reason \<open>New connection established\<close>
  before the new connection is installed; the close handler of the prior socket, which
  runs inside that call, rejects what is pending with \<open>Connection lost\<close> and empties the
  table. The slot then holds the new socket with the version \<open>unknown\<close> and the time of
  the opening, and the welcome message is sent to the new socket; \<open>isConnected\<close> is true
  afterwards and the slot's metadata is that of the new connection.
\<close>

theorem second_connection_supersedes:
  assumes "connection s = Some c"
  shows "ws_open w now now' s =
           (s\<lparr>timers := timers s |` (- (timeout ` snd ` set (pendingRequests s))),
              pendingRequests := [],
              connection := Some \<lparr>ws = w, pluginVersion = JStr ''unknown'', connectedAt = now\<rparr>\<rparr>,
            WsClose (ws c) 1000 ''New connection established''
              # concat (map (\<lambda>(i, pending). [ClearTimeout (timeout pending),
                    Reject (reject pending) (Error ''Connection lost'')]) (pendingRequests s))
              @ [WsSend w (Welcome ''0.1.0'' now')])
       \<and> isConnected (fst (ws_open w now now' s))
       \<and> getConnectionInfo (fst (ws_open w now now' s)) = (True, Some (JStr ''unknown''), Some now)"
  using assms
  by (simp add: ws_open_def ws_close_def rejectAll_eq filter_own_keys isConnected_def
      getConnectionInfo_def)

theorem second_connection_supersedes_witness:
  "snd (ws_open 2 20 21 connected)
     = [WsClose 1 1000 ''New connection established'', WsSend 2 (Welcome ''0.1.0'' 21)]
   \<and> connection (fst (ws_open 2 20 21 connected))
     = Some \<lparr>ws = 2, pluginVersion = JStr ''unknown'', connectedAt = 20\<rparr>
   \<and> snd (ws_open 2 20 21 two_pending)
     = [WsClose 1 1000 ''New connection established'',
        ClearTimeout 0, Reject 0 (Error ''Connection lost''),
        ClearTimeout 1, Reject 1 (Error ''Connection lost''),
        WsSend 2 (Welcome ''0.1.0'' 21)]
   \<and> connection (fst (ws_open 2 20 21 two_pending))
     = Some \<lparr>ws = 2, pluginVersion = JStr ''unknown'', connectedAt = 20\<rparr>
   \<and> pendingRequests (fst (ws_open 2 20 21 two_pending)) = []"
  using second_connection_supersedes [of connected example_connection 2 20 21]
    second_connection_supersedes [of two_pending example_connection 2 20 21]
  by (simp add: two_pending_eq connected_eq example_connection_def)

text \<open>The reason given to the first socket is not \<open>superseded\<close>.\<close>

theorem supersede_reason_counterexample:
  "snd (ws_open 2 20 21 (fst (ws_open 1 10 11 createBridge)))
     = [WsClose 1 1000 ''New connection established'', WsSend 2 (Welcome ''0.1.0'' 21)]
   \<and> WsClose 1 1000 ''superseded''
       \<notin> set (snd (ws_open 2 20 21 (fst (ws_open 1 10 11 createBridge))))"
  by (simp add: ws_open_def ws_close_def createBridge_def)

text \<open>
  Claim C8. A handshake message changes at most the \<open>pluginVersion\<close> field of the
  installed connection, and only when it arrives on that connection's socket: the socket,
  the time of establishment, the table, the timers and the observers are those of before,
  and nothing is sent, cleared, settled or notified. With no connection installed, or on
  another socket, it changes nothing; so it never installs or replaces a connection. A
  truthy \<open>pluginVersion\<close> parameter becomes the new version.
\<close>

theorem handshake_updates_only_version:
  assumes "msg_type m = ''handshake''"
  shows "(connection s = None \<longrightarrow> handleMessage m w s = (s, []))
       \<and> (\<forall>c. connection s = Some c \<and> ws c \<noteq> w \<longrightarrow> handleMessage m w s = (s, []))
       \<and> (\<forall>c. connection s = Some c \<and> ws c = w \<longrightarrow>
            (\<exists>v. handleMessage m w s = (s\<lparr>connection := Some (c\<lparr>pluginVersion := v\<rparr>)\<rparr>, [])))
       \<and> (\<forall>c ps v. connection s = Some c \<and> ws c = w \<and> msg_params m = Some ps
              \<and> map_of ps ''pluginVersion'' = Some v \<and> truthy v \<longrightarrow>
            handleMessage m w s = (s\<lparr>connection := Some (c\<lparr>pluginVersion := v\<rparr>)\<rparr>, []))"
proof -
  have installed: "handleMessage m w s =
      (s\<lparr>connection := Some (c\<lparr>pluginVersion :=
          (case msg_params m of
             None \<Rightarrow> pluginVersion c
           | Some ps \<Rightarrow>
               (case map_of ps ''pluginVersion'' of
                  Some v \<Rightarrow> if truthy v then v else JStr ''unknown''
                | None \<Rightarrow> JStr ''unknown''))\<rparr>)\<rparr>, [])"
    if "connection s = Some c" and "ws c = w" for c
    using assms that by (simp add: handleMessage_def split: option.splits)
  have "handleMessage m w s = (s, [])" if "connection s = None"
    using assms that by (simp add: handleMessage_def)
  moreover have "handleMessage m w s = (s, [])" if "connection s = Some c" and "ws c \<noteq> w" for c
    using assms that by (simp add: handleMessage_def split: option.splits)
  moreover have "\<exists>v. handleMessage m w s = (s\<lparr>connection := Some (c\<lparr>pluginVersion := v\<rparr>)\<rparr>, [])"
    if "connection s = Some c" and "ws c = w" for c
    using installed [OF that] by blast
  moreover have "handleMessage m w s = (s\<lparr>connection := Some (c\<lparr>pluginVersion := v\<rparr>)\<rparr>, [])"
    if "connection s = Some c" and "ws c = w" and "msg_params m = Some ps"
      and "map_of ps ''pluginVersion'' = Some v" and "truthy v" for c ps v
    using installed [OF that(1,2)] that(3-5) by simp
  ultimately show ?thesis by blast
qed

theorem handshake_updates_only_version_witness:
  "handleMessage handshake_example 1 two_pending
     = (two_pending\<lparr>connection :=
          Some \<lparr>ws = 1, pluginVersion = JStr ''1.4.2'', connectedAt = 10\<rparr>\<rparr>, [])
   \<and> handleMessage handshake_example 1 createBridge = (createBridge, [])"
  using handshake_updates_only_version [of handshake_example two_pending 1]
    handshake_updates_only_version [of handshake_example createBridge 1]
  by (simp add: two_pending_eq handshake_example_def example_connection_def createBridge_def)

section \<open>Loss of the connection\<close>

text \<open>
  Claim C3. The close of the active socket clears the slot and visits every entry of the
  table: it cancels the entry's timer and rejects the entry's promise with
  \<open>Connection lost\<close>; the table is empty afterwards. Shutdown does the same with
  \<open>Bridge shutting down\<close>, then closes the installed socket (if any) with code 1000,
  clears the slot and stops the server. No condition on time is involved.
\<close>

theorem connection_loss_rejects_all:
  "(connection s = Some c \<and> ws c = w \<longrightarrow>
     ws_close w s =
       (s\<lparr>connection := None,
          timers := timers s |` (- (timeout ` snd ` set (pendingRequests s))),
          pendingRequests := []\<rparr>,
        concat (map (\<lambda>(i, pending). [ClearTimeout (timeout pending),
                    Reject (reject pending) (Error ''Connection lost'')]) (pendingRequests s))))
   \<and> shutdown s =
       (s\<lparr>timers := timers s |` (- (timeout ` snd ` set (pendingRequests s))),
          pendingRequests := [], connection := None, serverRunning := False\<rparr>,
        concat (map (\<lambda>(i, pending). [ClearTimeout (timeout pending),
                    Reject (reject pending) (Error ''Bridge shutting down'')]) (pendingRequests s))
        @ (case connection s of Some c \<Rightarrow> [WsClose (ws c) 1000 ''Server shutting down'']
           | None \<Rightarrow> [])
        @ [ServerStop])"
  by (auto simp: ws_close_def shutdown_def rejectAll_eq filter_own_keys split: option.splits)

theorem connection_loss_rejects_all_witness:
  "connection two_pending = Some example_connection
   \<and> snd (ws_close 1 two_pending)
       = [ClearTimeout 0, Reject 0 (Error ''Connection lost''),
          ClearTimeout 1, Reject 1 (Error ''Connection lost'')]
   \<and> pendingRequests (fst (ws_close 1 two_pending)) = []
   \<and> timers (fst (ws_close 1 two_pending)) = Map.empty
   \<and> connection (fst (ws_close 1 two_pending)) = None
   \<and> snd (shutdown two_pending)
       = [ClearTimeout 0, Reject 0 (Error ''Bridge shutting down''),
          ClearTimeout 1, Reject 1 (Error ''Bridge shutting down''),
          WsClose 1 1000 ''Server shutting down'', ServerStop]
   \<and> pendingRequests (fst (shutdown two_pending)) = []
   \<and> connection (fst (shutdown two_pending)) = None
   \<and> \<not> serverRunning (fst (shutdown two_pending))"
  using connection_loss_rejects_all [of two_pending example_connection 1]
  by (simp add: two_pending_eq example_connection_def restrict_map_def fun_eq_iff)

section \<open>A send that fails\<close>

text \<open>The path of \<open>sendRequest\<close> that catches: when a connection is installed and
  \<open>ws.send\<close> throws, the timer just armed is cancelled, the entry just inserted is
  removed, and the promise is rejected at once with the error thrown. The id drawn being
  unique (not a key of the table), the table is the one of before the call.\<close>

lemma throwing_send_restores_table:
  assumes "connection s = Some c" and "wsSend env = SendThrows e"
  shows "sendRequest method params env s =
           (nextPromise s,
            s\<lparr>nextPromise := Suc (nextPromise s), nextTimer := Suc (nextTimer s),
              timers := (timers s)(nextTimer s := None),
              pendingRequests := AList.delete (randomUUID env) (pendingRequests s)\<rparr>,
            [ClearTimeout (nextTimer s), Reject (nextPromise s) e])
       \<and> (randomUUID env \<notin> fst ` set (pendingRequests s) \<longrightarrow>
            pendingRequests (fst (snd (sendRequest method params env s))) = pendingRequests s)
       \<and> timeoutFires (nextTimer s) (fst (snd (sendRequest method params env s)))
           = (fst (snd (sendRequest method params env s)), [])"
  using assms
  by (simp add: sendRequest_def clearTimeout_def timeoutFires_def Let_def delete_update_same)

text \<open>The path that does not: when the socket drops the frame and reports it by its
  status, which \<open>sendRequest\<close> does not read, the entry and its timer stay and nothing is
  settled.\<close>

lemma dropped_send_leaves_entry:
  assumes "connection s = Some c" and "wsSend env = SendDropped"
  shows "sendRequest method params env s =
           (nextPromise s,
            s\<lparr>nextPromise := Suc (nextPromise s), nextTimer := Suc (nextTimer s),
              timers := (timers s)(nextTimer s \<mapsto>
                \<lparr>delay = 30000, cb_id = randomUUID env, cb_method = method,
                 cb_reject = nextPromise s\<rparr>),
              pendingRequests := AList.update (randomUUID env)
                \<lparr>resolve = nextPromise s, reject = nextPromise s, timeout = nextTimer s\<rparr>
                (pendingRequests s)\<rparr>,
            [])"
  using assms by (simp add: sendRequest_def Let_def REQUEST_TIMEOUT_MS_def)

text \<open>
  Claim C7. The claim asks that every send that fails at once cancel the timer, remove
  the entry and surface the failure. The code does so for a send that throws, and not for
  a send that the socket drops: with two requests in flight, a third whose frame is
  dropped stays in the table with its timer armed, nothing is cancelled or rejected, and
  the caller learns of it only when the timeout fires.
\<close>

theorem dropped_send_keeps_entry:
  "snd (snd (sendRequest ''get_tags'' [] dropping_env two_pending)) = []
   \<and> pendingRequests (fst (snd (sendRequest ''get_tags'' [] dropping_env two_pending)))
     = pendingRequests two_pending @ [(''id-c'', \<lparr>resolve = 2, reject = 2, timeout = 2\<rparr>)]
   \<and> timers (fst (snd (sendRequest ''get_tags'' [] dropping_env two_pending))) 2
     = Some \<lparr>delay = 30000, cb_id = ''id-c'', cb_method = ''get_tags'', cb_reject = 2\<rparr>
   \<and> snd (timeoutFires 2 (fst (snd (sendRequest ''get_tags'' [] dropping_env two_pending))))
     = [Reject 2 (Error ''Request timeout: get_tags'')]
   \<and> snd (snd (sendRequest ''get_tags'' [] failing_env two_pending))
     = [ClearTimeout 2, Reject 2 (Error ''socket closed'')]
   \<and> pendingRequests (fst (snd (sendRequest ''get_tags'' [] failing_env two_pending)))
     = pendingRequests two_pending"
  by (simp add: two_pending_eq dropping_env_def failing_env_def sendRequest_def Let_def
      REQUEST_TIMEOUT_MS_def clearTimeout_def timeoutFires_def)

section \<open>Inherited lookups\<close>

lemma example_chain_ends: "superclass_chain_ends example_cache ''Part''"
proof -
  define cs where "cs = Classes (apiDump example_cache)"
  have f0: "findClass example_cache ''Instance'' = Some (cs ! 0)"
    and f1: "findClass example_cache ''BasePart'' = Some (cs ! 1)"
    and f2: "findClass example_cache ''Part'' = Some (cs ! 2)"
    by (simp_all add: cs_def findClass_def example_cache_def)
  have h0: "\<not> hasSuperclass (cs ! 0)"
    and h1: "hasSuperclass (cs ! 1)" "Superclass (cs ! 1) = ''Instance''"
    and h2: "hasSuperclass (cs ! 2)" "Superclass (cs ! 2) = ''BasePart''"
    by (simp_all add: cs_def example_cache_def hasSuperclass_def)
  have "superclass_chain_ends example_cache ''Instance''"
    using f0 h0 by (rule superclass_chain_ends.root)
  then have "superclass_chain_ends example_cache ''BasePart''"
    using superclass_chain_ends.link [OF f1 h1(1)] h1(2) by simp
  then show ?thesis
    using superclass_chain_ends.link [OF f2 h2(1)] h2(2) by simp
qed

text \<open>
  Claim C10. If following \<open>Superclass\<close> from the class asked for reaches a class without
  superclass (empty or the root sentinel) or a name that names no class, then
  \<open>getPropertyDocs\<close>, \<open>getMethodDocs\<close>, \<open>getEventDocs\<close> and \<open>getClassDocs\<close> with
  inheritance return. The recursion has no other bound: \<open>getClassDocs\<close> with inheritance
  returns only if the chain ends, and on a dump in which two classes name each other as
  superclass none of the four calls returns.
\<close>

theorem inherited_lookups_terminate:
  "(superclass_chain_ends cache className \<longrightarrow>
      (\<exists>r. getPropertyDocs cache className memberName = Some r)
    \<and> (\<exists>r. getMethodDocs cache className memberName = Some r)
    \<and> (\<exists>r. getEventDocs cache className memberName = Some r)
    \<and> (\<exists>r. getClassDocs cache className True = Some r))
   \<and> ((\<exists>r. getClassDocs cache className True = Some r) \<longrightarrow> superclass_chain_ends cache className)
   \<and> getPropertyDocs cyclic_cache ''Part'' memberName = None
   \<and> getMethodDocs cyclic_cache ''Part'' memberName = None
   \<and> getEventDocs cyclic_cache ''Part'' memberName = None
   \<and> getClassDocs cyclic_cache ''Part'' True = None"
proof -
  have "getClassDocs cyclic_cache ''Part'' True = None"
    using getClassDocs_returns_only_if [of cyclic_cache "''Part''" True] cyclic_not_ends
    by (cases "getClassDocs cyclic_cache ''Part'' True") auto
  then show ?thesis
    using getPropertyDocs_returns getMethodDocs_returns getEventDocs_returns
      getClassDocs_returns getClassDocs_returns_only_if
      getPropertyDocs_diverges getMethodDocs_diverges getEventDocs_diverges
    by blast
qed

theorem inherited_lookups_terminate_witness:
  "superclass_chain_ends example_cache ''Part''
   \<and> (\<exists>r. getPropertyDocs example_cache ''Part'' ''Name'' = Some r)
   \<and> (\<exists>r. getMethodDocs example_cache ''Part'' ''Name'' = Some r)
   \<and> (\<exists>r. getEventDocs example_cache ''Part'' ''Name'' = Some r)
   \<and> (\<exists>r. getClassDocs example_cache ''Part'' True = Some r)"
  using inherited_lookups_terminate [of example_cache "''Part''" "''Name''"] example_chain_ends
  by blast

end
